theory Spec2Isabelle
  imports Complex_Main
begin

section \<open>A shallow embedding of the Pascal-subset interpreter \<^verbatim>\<open>spi_updated.py\<close>\<close>

text \<open>
  The program has three stages: a lexer that turns a string into tokens on demand, a
  recursive-descent parser that pulls tokens and builds a syntax tree, and a tree-walking
  interpreter with one dictionary of variables, \<^verbatim>\<open>GLOBAL_SCOPE\<close>.

  Conventions of the embedding.
  \<^item> Every Python exception is a value of type \<open>error\<close>; a method that may raise returns
    \<open>error + 'a\<close> with \<open>Inl\<close> for the exception.
  \<^item> Objects that are mutated (\<^verbatim>\<open>Lexer\<close>, \<^verbatim>\<open>Parser\<close>, \<^verbatim>\<open>GLOBAL_SCOPE\<close>) are passed in and
    returned explicitly.
  \<^item> The file is Python 3 only (it uses the statement \<^verbatim>\<open>...\<close>), so \<^verbatim>\<open>/\<close> is true division
    and its result is a float. Floats are IEEE binary64 numbers with round-to-nearest-even,
    infinities, NaN and signed zeros; integers are unbounded.
  \<^item> A Python string is a list of characters; a \<^typ>\<open>char\<close> is read as the code point of the
    same number (0 to 255), and the classification methods \<^verbatim>\<open>isalpha\<close>, \<^verbatim>\<open>isdigit\<close>,
    \<^verbatim>\<open>isalnum\<close>, \<^verbatim>\<open>isspace\<close> are those of Python on these code points.
  \<^item> Resource limits of the Python runtime (recursion depth, memory, the digit limit of
    \<^verbatim>\<open>int\<close> on literals of several thousand digits) are outside the model.
\<close>

subsection \<open>Tokens and errors\<close>

datatype toktype = INTEGER | PLUS | MINUS | MUL | DIV | LPAREN | RPAREN | EOF
  | BEGIN | END | ASSIGN | SEMI | DOT | ID

text \<open>The value of a token is an integer (\<^verbatim>\<open>INTEGER\<close>), a string, or \<^verbatim>\<open>None\<close> (\<^verbatim>\<open>EOF\<close>).\<close>

datatype tokval = IntVal int | StrVal string | NoneVal

datatype token = Token (tok_type: toktype) (tok_value: tokval)

text \<open>
  \<open>Invalid_character\<close> is \<^verbatim>\<open>Exception('Invalid character')\<close> of \<^verbatim>\<open>Lexer.error\<close>,
  \<open>Invalid_syntax\<close> is \<^verbatim>\<open>Exception('Invalid syntax')\<close> of \<^verbatim>\<open>Parser.error\<close>, and
  \<open>NameError name\<close> is \<^verbatim>\<open>NameError(repr(name))\<close>. The others are raised by the Python
  runtime: \<open>IndexError\<close> by indexing a string out of range, \<open>ValueError\<close> by \<^verbatim>\<open>int\<close> on a
  string that is not a decimal literal, \<open>ZeroDivisionError\<close> and \<open>OverflowError\<close> by
  arithmetic.
\<close>

datatype error = IndexError | ValueError | Invalid_character | Invalid_syntax
  | NameError string | ZeroDivisionError | OverflowError

text \<open>Both arithmetic exceptions are subclasses of Python's \<^verbatim>\<open>ArithmeticError\<close>.\<close>

fun is_ArithmeticError :: "error \<Rightarrow> bool" where
  "is_ArithmeticError ZeroDivisionError = True"
| "is_ArithmeticError OverflowError = True"
| "is_ArithmeticError _ = False"

subsection \<open>Character classes\<close>

definition ord :: "char \<Rightarrow> nat" where
  "ord c = of_char c"

definition isdecimal :: "char \<Rightarrow> bool" where
  "isdecimal c = (48 \<le> ord c \<and> ord c \<le> 57)"

text \<open>Besides the ten decimal digits, the superscripts two, three and one are digits.\<close>

definition isdigit :: "char \<Rightarrow> bool" where
  "isdigit c = (isdecimal c \<or> ord c = 178 \<or> ord c = 179 \<or> ord c = 185)"

definition isnumeric :: "char \<Rightarrow> bool" where
  "isnumeric c = (isdigit c \<or> ord c = 188 \<or> ord c = 189 \<or> ord c = 190)"

definition isalpha :: "char \<Rightarrow> bool" where
  "isalpha c = (let n = ord c in
     (65 \<le> n \<and> n \<le> 90) \<or> (97 \<le> n \<and> n \<le> 122) \<or> n = 170 \<or> n = 181 \<or> n = 186
     \<or> (192 \<le> n \<and> n \<le> 214) \<or> (216 \<le> n \<and> n \<le> 246) \<or> (248 \<le> n \<and> n \<le> 255))"

definition isalnum :: "char \<Rightarrow> bool" where
  "isalnum c = (isalpha c \<or> isdecimal c \<or> isdigit c \<or> isnumeric c)"

definition isspace :: "char \<Rightarrow> bool" where
  "isspace c = (let n = ord c in
     (9 \<le> n \<and> n \<le> 13) \<or> (28 \<le> n \<and> n \<le> 32) \<or> n = 133 \<or> n = 160)"

subsection \<open>Lexer\<close>

text \<open>The three attributes of a \<^verbatim>\<open>Lexer\<close>; \<open>src_text\<close> is \<^verbatim>\<open>self.text\<close>.\<close>

record lexer =
  src_text :: string
  pos :: nat
  current_char :: "char option"

text \<open>\<^verbatim>\<open>Lexer.__init__\<close> reads \<^verbatim>\<open>self.text[self.pos]\<close> with \<^verbatim>\<open>pos = 0\<close>.\<close>

definition Lexer :: "string \<Rightarrow> error + lexer" where
  "Lexer txt = (if 0 < length txt
     then Inr \<lparr>src_text = txt, pos = 0, current_char = Some (txt ! 0)\<rparr>
     else Inl IndexError)"

definition advance :: "lexer \<Rightarrow> lexer" where
  "advance l = (let p = pos l + 1 in
     if int p > int (length (src_text l)) - 1
     then l\<lparr>pos := p, current_char := None\<rparr>
     else l\<lparr>pos := p, current_char := Some (src_text l ! p)\<rparr>)"

text \<open>
  The number of characters not yet consumed, counting the current one: the measure
  that decreases in every loop of the lexer and the parser.
\<close>

definition remaining :: "lexer \<Rightarrow> nat" where
  "remaining l = (length (src_text l) - pos l) + (case current_char l of None \<Rightarrow> 0 | Some _ \<Rightarrow> 1)"

function skip_whitespace :: "lexer \<Rightarrow> lexer" where
  "skip_whitespace l = (case current_char l of
      None \<Rightarrow> l
    | Some c \<Rightarrow> if isspace c then skip_whitespace (advance l) else l)"
  by pat_completeness auto
termination
  by (relation "measure remaining")
     (auto simp: remaining_def advance_def Let_def split: option.splits)

text \<open>The loop of \<^verbatim>\<open>integer\<close>, with \<^verbatim>\<open>result\<close> as accumulator.\<close>

function integer_loop :: "string \<Rightarrow> lexer \<Rightarrow> string \<times> lexer" where
  "integer_loop result l = (case current_char l of
      None \<Rightarrow> (result, l)
    | Some c \<Rightarrow> if isdigit c then integer_loop (result @ [c]) (advance l) else (result, l))"
  by pat_completeness auto
termination
  by (relation "measure (\<lambda>(r, l). remaining l)")
     (auto simp: remaining_def advance_def Let_def split: option.splits)

text \<open>
  \<^verbatim>\<open>int(result)\<close> on a string of characters: the value of a non-empty run of decimal
  digits, \<^verbatim>\<open>ValueError\<close> otherwise (a superscript digit passes \<^verbatim>\<open>isdigit\<close> and fails here).
\<close>

definition py_int :: "string \<Rightarrow> error + int" where
  "py_int s = (if s \<noteq> [] \<and> list_all isdecimal s
     then Inr (foldl (\<lambda>n c. 10 * n + (int (ord c) - 48)) 0 s)
     else Inl ValueError)"

definition integer :: "lexer \<Rightarrow> error + (int \<times> lexer)" where
  "integer l = (case integer_loop [] l of (result, l') \<Rightarrow>
     (case py_int result of Inl e \<Rightarrow> Inl e | Inr n \<Rightarrow> Inr (n, l')))"

definition peek :: "lexer \<Rightarrow> char option" where
  "peek l = (let peek_pos = pos l + 1 in
     if int peek_pos > int (length (src_text l)) - 1 then None
     else Some (src_text l ! peek_pos))"

definition RESERVED_KEYWORDS :: "string \<rightharpoonup> token" where
  "RESERVED_KEYWORDS = [''BEGIN'' \<mapsto> Token BEGIN (StrVal ''BEGIN''),
     ''END'' \<mapsto> Token END (StrVal ''END'')]"

text \<open>The loop of \<^verbatim>\<open>_id\<close> and the method itself (\<open>lexer_id\<close>).\<close>

function id_loop :: "string \<Rightarrow> lexer \<Rightarrow> string \<times> lexer" where
  "id_loop result l = (case current_char l of
      None \<Rightarrow> (result, l)
    | Some c \<Rightarrow> if isalnum c then id_loop (result @ [c]) (advance l) else (result, l))"
  by pat_completeness auto
termination
  by (relation "measure (\<lambda>(r, l). remaining l)")
     (auto simp: remaining_def advance_def Let_def split: option.splits)

definition lexer_id :: "lexer \<Rightarrow> token \<times> lexer" where
  "lexer_id l = (case id_loop [] l of (result, l') \<Rightarrow>
     (case RESERVED_KEYWORDS result of
        Some t \<Rightarrow> (t, l')
      | None \<Rightarrow> (Token ID (StrVal result), l')))"

text \<open>
  \<^verbatim>\<open>get_next_token\<close>: the tests are in the order of the source; \<^verbatim>\<open>continue\<close> after
  \<^verbatim>\<open>skip_whitespace\<close> is the recursive call.
\<close>

function get_next_token :: "lexer \<Rightarrow> error + (token \<times> lexer)" where
  "get_next_token l = (case current_char l of
      None \<Rightarrow> Inr (Token EOF NoneVal, l)
    | Some c \<Rightarrow>
        if isalpha c then Inr (lexer_id l)
        else if c = CHR '':'' \<and> peek l = Some CHR ''=''
          then Inr (Token ASSIGN (StrVal '':=''), advance (advance l))
        else if c = CHR '';'' then Inr (Token SEMI (StrVal '';''), advance l)
        else if c = CHR ''.'' then Inr (Token DOT (StrVal ''.''), advance l)
        else if isspace c then get_next_token (skip_whitespace l)
        else if isdigit c then
          (case integer l of Inl e \<Rightarrow> Inl e | Inr (n, l') \<Rightarrow> Inr (Token INTEGER (IntVal n), l'))
        else if c = CHR ''+'' then Inr (Token PLUS (StrVal ''+''), advance l)
        else if c = CHR ''-'' then Inr (Token MINUS (StrVal ''-''), advance l)
        else if c = CHR ''*'' then Inr (Token MUL (StrVal ''*''), advance l)
        else if c = CHR ''/'' then Inr (Token DIV (StrVal ''/''), advance l)
        else if c = CHR ''('' then Inr (Token LPAREN (StrVal ''(''), advance l)
        else if c = CHR '')'' then Inr (Token RPAREN (StrVal '')''), advance l)
        else Inl Invalid_character)"
  by pat_completeness auto

text \<open>\<open>n\<close> successive calls of \<^verbatim>\<open>get_next_token\<close>, collecting the tokens.\<close>

fun next_tokens :: "nat \<Rightarrow> lexer \<Rightarrow> error + (token list \<times> lexer)" where
  "next_tokens 0 l = Inr ([], l)"
| "next_tokens (Suc n) l = (case get_next_token l of
      Inl e \<Rightarrow> Inl e
    | Inr (t, l1) \<Rightarrow>
        (case next_tokens n l1 of Inl e \<Rightarrow> Inl e | Inr (ts, l2) \<Rightarrow> Inr (t # ts, l2)))"

text \<open>
  The lexer states a client can observe: the one built by the constructor and those
  left by a call of \<^verbatim>\<open>get_next_token\<close> that returned.
\<close>

inductive lexer_state :: "string \<Rightarrow> lexer \<Rightarrow> bool" where
  initial: "Lexer txt = Inr l \<Longrightarrow> lexer_state txt l"
| next_token: "lexer_state txt l \<Longrightarrow> get_next_token l = Inr (t, l') \<Longrightarrow> lexer_state txt l'"

text \<open>
  In these states the current character is the one at the cursor, and \<^verbatim>\<open>None\<close> exactly
  when the cursor is past the last character.
\<close>

definition lexer_inv :: "lexer \<Rightarrow> bool" where
  "lexer_inv l = (current_char l =
     (if pos l < length (src_text l) then Some (src_text l ! pos l) else None))"

subsection \<open>Syntax trees\<close>

text \<open>
  The parser builds expression nodes (\<^verbatim>\<open>Num\<close>, \<^verbatim>\<open>BinOp\<close>, \<^verbatim>\<open>UnaryOp\<close>, \<^verbatim>\<open>Var\<close>) in
  \<^verbatim>\<open>factor\<close>/\<^verbatim>\<open>term\<close>/\<^verbatim>\<open>expr\<close> and statement nodes (\<^verbatim>\<open>Compound\<close>, \<^verbatim>\<open>Assign\<close>, \<^verbatim>\<open>NoOp\<close>) in the
  statement rules, and only these combinations: the operand of an operator and the right
  side of an assignment are expressions, the left side of an assignment is a \<^verbatim>\<open>Var\<close>, the
  children of a block are statements. The two datatypes are these trees. A node keeps of
  its token what the interpreter reads: the type of an operator token (one of two for
  \<^verbatim>\<open>UnaryOp\<close>, one of four for \<^verbatim>\<open>BinOp\<close>), the integer of a \<^verbatim>\<open>Num\<close>, the name of a \<^verbatim>\<open>Var\<close>.
\<close>

datatype unary_operator = UPlus | UMinus

datatype binary_operator = BPlus | BMinus | BMul | BDiv

datatype expr_ast = BinOp expr_ast binary_operator expr_ast
  | Num int
  | UnaryOp unary_operator expr_ast
  | Var string

datatype stmt_ast = Compound "stmt_ast list"
  | Assign string expr_ast
  | NoOp

subsection \<open>Parser\<close>

record parser =
  lexer :: lexer
  current_token :: token

text \<open>\<^verbatim>\<open>Parser.__init__\<close> takes the first token from the lexer.\<close>

definition Parser :: "lexer \<Rightarrow> error + parser" where
  "Parser lx = (case get_next_token lx of
      Inl e \<Rightarrow> Inl e
    | Inr (t, lx') \<Rightarrow> Inr \<lparr>lexer = lx', current_token = t\<rparr>)"

definition eat :: "toktype \<Rightarrow> parser \<Rightarrow> error + parser" where
  "eat token_type p = (if tok_type (current_token p) = token_type
     then (case get_next_token (lexer p) of
        Inl e \<Rightarrow> Inl e
      | Inr (t, lx') \<Rightarrow> Inr (p\<lparr>lexer := lx', current_token := t\<rparr>))
     else Inl Invalid_syntax)"

text \<open>
  The integer of an \<^verbatim>\<open>INTEGER\<close> token and the string of an \<^verbatim>\<open>ID\<close> token. The lexer gives
  these two types of token no other kind of value (lemma \<open>token_value_kind\<close> below), so the
  second equations are never used on its tokens.
\<close>

fun int_value :: "tokval \<Rightarrow> int" where
  "int_value (IntVal n) = n"
| "int_value _ = 0"

fun str_value :: "tokval \<Rightarrow> string" where
  "str_value (StrVal s) = s"
| "str_value _ = []"

text \<open>\<^verbatim>\<open>variable\<close> returns the name of the \<^verbatim>\<open>Var\<close> node it builds.\<close>

definition variable :: "parser \<Rightarrow> error + (string \<times> parser)" where
  "variable p = (let name = str_value (tok_value (current_token p)) in
     case eat ID p of Inl e \<Rightarrow> Inl e | Inr p1 \<Rightarrow> Inr (name, p1))"

text \<open>
  The expression rules. \<open>parser_term\<close> is the method \<^verbatim>\<open>term\<close>; \<open>term_loop\<close> and
  \<open>expr_loop\<close> are the \<^verbatim>\<open>while\<close> loops of \<^verbatim>\<open>term\<close> and \<^verbatim>\<open>expr\<close> with \<^verbatim>\<open>node\<close> as accumulator.
\<close>

function factor :: "parser \<Rightarrow> error + (expr_ast \<times> parser)"
  and parser_term :: "parser \<Rightarrow> error + (expr_ast \<times> parser)"
  and term_loop :: "expr_ast \<Rightarrow> parser \<Rightarrow> error + (expr_ast \<times> parser)"
  and expr :: "parser \<Rightarrow> error + (expr_ast \<times> parser)"
  and expr_loop :: "expr_ast \<Rightarrow> parser \<Rightarrow> error + (expr_ast \<times> parser)"
where
  "factor p = (let token = current_token p in
     if tok_type token = PLUS then
       (case eat PLUS p of Inl e \<Rightarrow> Inl e | Inr p1 \<Rightarrow>
         (case factor p1 of Inl e \<Rightarrow> Inl e | Inr (node, p2) \<Rightarrow> Inr (UnaryOp UPlus node, p2)))
     else if tok_type token = MINUS then
       (case eat MINUS p of Inl e \<Rightarrow> Inl e | Inr p1 \<Rightarrow>
         (case factor p1 of Inl e \<Rightarrow> Inl e | Inr (node, p2) \<Rightarrow> Inr (UnaryOp UMinus node, p2)))
     else if tok_type token = INTEGER then
       (case eat INTEGER p of Inl e \<Rightarrow> Inl e
        | Inr p1 \<Rightarrow> Inr (Num (int_value (tok_value token)), p1))
     else if tok_type token = LPAREN then
       (case eat LPAREN p of Inl e \<Rightarrow> Inl e | Inr p1 \<Rightarrow>
         (case expr p1 of Inl e \<Rightarrow> Inl e | Inr (node, p2) \<Rightarrow>
           (case eat RPAREN p2 of Inl e \<Rightarrow> Inl e | Inr p3 \<Rightarrow> Inr (node, p3))))
     else if tok_type token = ID then
       (case variable p of Inl e \<Rightarrow> Inl e | Inr (name, p1) \<Rightarrow> Inr (Var name, p1))
     else Inl Invalid_syntax)"
| "parser_term p = (case factor p of Inl e \<Rightarrow> Inl e | Inr (node, p1) \<Rightarrow> term_loop node p1)"
| "term_loop node p = (let token = current_token p in
     if tok_type token = MUL then
       (case eat MUL p of Inl e \<Rightarrow> Inl e | Inr p1 \<Rightarrow>
         (case factor p1 of Inl e \<Rightarrow> Inl e
          | Inr (right, p2) \<Rightarrow> term_loop (BinOp node BMul right) p2))
     else if tok_type token = DIV then
       (case eat DIV p of Inl e \<Rightarrow> Inl e | Inr p1 \<Rightarrow>
         (case factor p1 of Inl e \<Rightarrow> Inl e
          | Inr (right, p2) \<Rightarrow> term_loop (BinOp node BDiv right) p2))
     else Inr (node, p))"
| "expr p = (case parser_term p of Inl e \<Rightarrow> Inl e | Inr (node, p1) \<Rightarrow> expr_loop node p1)"
| "expr_loop node p = (let token = current_token p in
     if tok_type token = PLUS then
       (case eat PLUS p of Inl e \<Rightarrow> Inl e | Inr p1 \<Rightarrow>
         (case parser_term p1 of Inl e \<Rightarrow> Inl e
          | Inr (right, p2) \<Rightarrow> expr_loop (BinOp node BPlus right) p2))
     else if tok_type token = MINUS then
       (case eat MINUS p of Inl e \<Rightarrow> Inl e | Inr p1 \<Rightarrow>
         (case parser_term p1 of Inl e \<Rightarrow> Inl e
          | Inr (right, p2) \<Rightarrow> expr_loop (BinOp node BMinus right) p2))
     else Inr (node, p))"
  by pat_completeness auto

definition assignment_statement :: "parser \<Rightarrow> error + (stmt_ast \<times> parser)" where
  "assignment_statement p = (case variable p of Inl e \<Rightarrow> Inl e | Inr (left, p1) \<Rightarrow>
     (case eat ASSIGN p1 of Inl e \<Rightarrow> Inl e | Inr p2 \<Rightarrow>
       (case expr p2 of Inl e \<Rightarrow> Inl e | Inr (right, p3) \<Rightarrow> Inr (Assign left right, p3))))"

text \<open>The method \<^verbatim>\<open>empty\<close>.\<close>

definition parser_empty :: "parser \<Rightarrow> error + (stmt_ast \<times> parser)" where
  "parser_empty p = Inr (NoOp, p)"

text \<open>
  The statement rules; \<open>statement_list_loop\<close> is the \<^verbatim>\<open>while\<close> loop of
  \<^verbatim>\<open>statement_list\<close> with \<^verbatim>\<open>results\<close> as accumulator.
\<close>

function compound_statement :: "parser \<Rightarrow> error + (stmt_ast \<times> parser)"
  and statement_list :: "parser \<Rightarrow> error + (stmt_ast list \<times> parser)"
  and statement_list_loop :: "stmt_ast list \<Rightarrow> parser \<Rightarrow> error + (stmt_ast list \<times> parser)"
  and statement :: "parser \<Rightarrow> error + (stmt_ast \<times> parser)"
where
  "compound_statement p =
     (case eat BEGIN p of Inl e \<Rightarrow> Inl e | Inr p1 \<Rightarrow>
       (case statement_list p1 of Inl e \<Rightarrow> Inl e | Inr (nodes, p2) \<Rightarrow>
         (case eat END p2 of Inl e \<Rightarrow> Inl e | Inr p3 \<Rightarrow> Inr (Compound nodes, p3))))"
| "statement_list p =
     (case statement p of Inl e \<Rightarrow> Inl e | Inr (node, p1) \<Rightarrow> statement_list_loop [node] p1)"
| "statement_list_loop results p =
     (if tok_type (current_token p) = SEMI then
        (case eat SEMI p of Inl e \<Rightarrow> Inl e | Inr p1 \<Rightarrow>
          (case statement p1 of Inl e \<Rightarrow> Inl e
           | Inr (node, p2) \<Rightarrow> statement_list_loop (results @ [node]) p2))
      else Inr (results, p))"
| "statement p =
     (if tok_type (current_token p) = BEGIN then compound_statement p
      else if tok_type (current_token p) = ID then assignment_statement p
      else parser_empty p)"
  by pat_completeness auto

definition program :: "parser \<Rightarrow> error + (stmt_ast \<times> parser)" where
  "program p = (case compound_statement p of Inl e \<Rightarrow> Inl e | Inr (node, p1) \<Rightarrow>
     (case eat DOT p1 of Inl e \<Rightarrow> Inl e | Inr p2 \<Rightarrow> Inr (node, p2)))"

definition parse :: "parser \<Rightarrow> error + (stmt_ast \<times> parser)" where
  "parse p = (case program p of Inl e \<Rightarrow> Inl e | Inr (node, p1) \<Rightarrow>
     if tok_type (current_token p1) \<noteq> EOF then Inl Invalid_syntax else Inr (node, p1))"

text \<open>The measure of the parser: what the lexer has left, and the token in hand.\<close>

definition psize :: "parser \<Rightarrow> nat" where
  "psize p = remaining (lexer p) + (if tok_type (current_token p) = EOF then 0 else 1)"

definition expr_rank ::
  "(parser + parser) + (expr_ast \<times> parser + (parser + expr_ast \<times> parser)) \<Rightarrow> nat \<times> nat" where
  "expr_rank x = (case x of
       Inl (Inl p) \<Rightarrow> (psize p, 0)
     | Inl (Inr p) \<Rightarrow> (psize p, 2)
     | Inr (Inl (node, p)) \<Rightarrow> (psize p, 1)
     | Inr (Inr (Inl p)) \<Rightarrow> (psize p, 4)
     | Inr (Inr (Inr (node, p))) \<Rightarrow> (psize p, 3))"

definition stmt_rank ::
  "(parser + parser) + (stmt_ast list \<times> parser + parser) \<Rightarrow> nat \<times> nat" where
  "stmt_rank x = (case x of
       Inl (Inl p) \<Rightarrow> (psize p, 0)
     | Inl (Inr p) \<Rightarrow> (psize p, 3)
     | Inr (Inl (results, p)) \<Rightarrow> (psize p, 2)
     | Inr (Inr p) \<Rightarrow> (psize p, 1))"

subsection \<open>Python numbers\<close>

text \<open>
  A finite float is \<open>Finite s m e\<close>, the number \<open>(-1)\<^sup>s \<sqdot> m \<sqdot> 2\<^sup>e\<close> with \<open>m\<close> odd, or \<open>m = 0\<close>
  and \<open>e = 0\<close> for the two zeros; it is a binary64 number when \<open>m < 2\<^sup>5\<^sup>3\<close>,
  \<open>- 1074 \<le> e\<close> and \<open>m \<sqdot> 2\<^sup>e < 2\<^sup>1\<^sup>0\<^sup>2\<^sup>4\<close>.
\<close>

datatype pyfloat = Finite bool nat int | Infinity bool | NaN

datatype pyval = PyInt int | PyFloat pyfloat

function bit_length :: "nat \<Rightarrow> nat" where
  "bit_length n = (if n = 0 then 0 else Suc (bit_length (n div 2)))"
  by pat_completeness auto
termination
  by (relation "measure id") auto

function normalize_odd :: "nat \<Rightarrow> int \<Rightarrow> nat \<times> int" where
  "normalize_odd m e = (if m = 0 then (0, 0)
     else if even m then normalize_odd (m div 2) (e + 1) else (m, e))"
  by pat_completeness auto
termination
  by (relation "measure fst") auto

text \<open>The integer nearest to \<open>n / d\<close>, the even one of two at the same distance.\<close>

definition round_half_even :: "nat \<Rightarrow> nat \<Rightarrow> nat" where
  "round_half_even n d = (let q = n div d; r = n mod d in
     if 2 * r < d then q else if d < 2 * r then q + 1 else if even q then q else q + 1)"

text \<open>The integer \<open>k\<close> with \<open>2\<^sup>k \<le> n / d < 2\<^sup>k\<^sup>+\<^sup>1\<close>, for positive \<open>n\<close> and \<open>d\<close>.\<close>

definition floor_log2 :: "nat \<Rightarrow> nat \<Rightarrow> int" where
  "floor_log2 n d = (let k = int (bit_length n) - int (bit_length d) in
     if (if 0 \<le> k then d * 2 ^ nat k \<le> n else d \<le> n * 2 ^ nat (- k)) then k else k - 1)"

text \<open>
  Rounding of the fraction \<open>n / d\<close> to binary64, to nearest and ties to even: 53
  significant bits, or a multiple of \<open>2\<^sup>-\<^sup>1\<^sup>0\<^sup>7\<^sup>4\<close> in the subnormal range; \<open>None\<close> when the
  rounded number is \<open>2\<^sup>1\<^sup>0\<^sup>2\<^sup>4\<close> or more.
\<close>

definition round_to_double :: "nat \<Rightarrow> nat \<Rightarrow> (nat \<times> int) option" where
  "round_to_double n d = (if n = 0 then Some (0, 0) else
     let e = floor_log2 n d;
         q = max (e - 52) (- 1074);
         m = (if 0 \<le> q then round_half_even n (d * 2 ^ nat q)
              else round_half_even (n * 2 ^ nat (- q)) d)
     in if 0 \<le> q \<and> 2 ^ 1024 \<le> m * 2 ^ nat q then None else Some (normalize_odd m q))"

text \<open>The float nearest to \<open>(-1)\<^sup>s \<sqdot> n \<sqdot> 2\<^sup>e\<close>; an infinity on overflow.\<close>

definition float_of_scaled :: "bool \<Rightarrow> nat \<Rightarrow> int \<Rightarrow> pyfloat" where
  "float_of_scaled s n e =
     (case (if 0 \<le> e then round_to_double (n * 2 ^ nat e) 1
            else round_to_double n (2 ^ nat (- e))) of
        None \<Rightarrow> Infinity s
      | Some (m, e') \<Rightarrow> Finite s m e')"

text \<open>Conversion of an integer operand to float, as in \<^verbatim>\<open>1 + 2.0\<close>.\<close>

definition int_to_float :: "int \<Rightarrow> error + pyfloat" where
  "int_to_float i = (case round_to_double (nat \<bar>i\<bar>) 1 of
      None \<Rightarrow> Inl OverflowError
    | Some (m, e) \<Rightarrow> Inr (Finite (i < 0) m e))"

text \<open>\<^verbatim>\<open>a / b\<close> on two integers: the float nearest to the quotient.\<close>

definition int_true_divide :: "int \<Rightarrow> int \<Rightarrow> error + pyfloat" where
  "int_true_divide a b = (if b = 0 then Inl ZeroDivisionError
     else case round_to_double (nat \<bar>a\<bar>) (nat \<bar>b\<bar>) of
       None \<Rightarrow> Inl OverflowError
     | Some (m, e) \<Rightarrow> Inr (Finite ((a < 0) \<noteq> (b < 0)) m e))"

fun float_neg :: "pyfloat \<Rightarrow> pyfloat" where
  "float_neg (Finite s m e) = Finite (\<not> s) m e"
| "float_neg (Infinity s) = Infinity (\<not> s)"
| "float_neg NaN = NaN"

fun float_is_zero :: "pyfloat \<Rightarrow> bool" where
  "float_is_zero (Finite s m e) = (m = 0)"
| "float_is_zero _ = False"

fun float_add :: "pyfloat \<Rightarrow> pyfloat \<Rightarrow> pyfloat" where
  "float_add NaN _ = NaN"
| "float_add _ NaN = NaN"
| "float_add (Infinity s) (Infinity t) = (if s = t then Infinity s else NaN)"
| "float_add (Infinity s) (Finite _ _ _) = Infinity s"
| "float_add (Finite _ _ _) (Infinity t) = Infinity t"
| "float_add (Finite s1 m1 e1) (Finite s2 m2 e2) =
     (let e0 = min e1 e2;
          a = (if s1 then - 1 else 1) * int m1 * 2 ^ nat (e1 - e0);
          b = (if s2 then - 1 else 1) * int m2 * 2 ^ nat (e2 - e0);
          c = a + b
      in if c = 0 then Finite (s1 \<and> s2) 0 0 else float_of_scaled (c < 0) (nat \<bar>c\<bar>) e0)"

definition float_sub :: "pyfloat \<Rightarrow> pyfloat \<Rightarrow> pyfloat" where
  "float_sub x y = float_add x (float_neg y)"

fun float_mul :: "pyfloat \<Rightarrow> pyfloat \<Rightarrow> pyfloat" where
  "float_mul NaN _ = NaN"
| "float_mul _ NaN = NaN"
| "float_mul (Infinity s) (Infinity t) = Infinity (s \<noteq> t)"
| "float_mul (Infinity s) (Finite t m e) = (if m = 0 then NaN else Infinity (s \<noteq> t))"
| "float_mul (Finite s m e) (Infinity t) = (if m = 0 then NaN else Infinity (s \<noteq> t))"
| "float_mul (Finite s1 m1 e1) (Finite s2 m2 e2) =
     (if m1 * m2 = 0 then Finite (s1 \<noteq> s2) 0 0
      else float_of_scaled (s1 \<noteq> s2) (m1 * m2) (e1 + e2))"

text \<open>Division of floats by a divisor that is not zero.\<close>

fun float_div :: "pyfloat \<Rightarrow> pyfloat \<Rightarrow> pyfloat" where
  "float_div NaN _ = NaN"
| "float_div _ NaN = NaN"
| "float_div (Infinity s) (Infinity t) = NaN"
| "float_div (Infinity s) (Finite t m e) = Infinity (s \<noteq> t)"
| "float_div (Finite s m e) (Infinity t) = Finite (s \<noteq> t) 0 0"
| "float_div (Finite s1 m1 e1) (Finite s2 m2 e2) =
     (case round_to_double (m1 * 2 ^ nat (e1 - e2)) (m2 * 2 ^ nat (e2 - e1)) of
        None \<Rightarrow> Infinity (s1 \<noteq> s2)
      | Some (m, e) \<Rightarrow> Finite (s1 \<noteq> s2) m e)"

fun to_float :: "pyval \<Rightarrow> error + pyfloat" where
  "to_float (PyInt i) = int_to_float i"
| "to_float (PyFloat x) = Inr x"

text \<open>
  An operator on two numbers of which one is a float: both are converted, the left
  one first, then the float operation is applied.
\<close>

definition float_binop ::
  "(pyfloat \<Rightarrow> pyfloat \<Rightarrow> pyfloat) \<Rightarrow> pyval \<Rightarrow> pyval \<Rightarrow> error + pyval" where
  "float_binop f a b = (case to_float a of Inl e \<Rightarrow> Inl e | Inr x \<Rightarrow>
     (case to_float b of Inl e \<Rightarrow> Inl e | Inr y \<Rightarrow> Inr (PyFloat (f x y))))"

fun py_add :: "pyval \<Rightarrow> pyval \<Rightarrow> error + pyval" where
  "py_add (PyInt x) (PyInt y) = Inr (PyInt (x + y))"
| "py_add a b = float_binop float_add a b"

fun py_sub :: "pyval \<Rightarrow> pyval \<Rightarrow> error + pyval" where
  "py_sub (PyInt x) (PyInt y) = Inr (PyInt (x - y))"
| "py_sub a b = float_binop float_sub a b"

fun py_mul :: "pyval \<Rightarrow> pyval \<Rightarrow> error + pyval" where
  "py_mul (PyInt x) (PyInt y) = Inr (PyInt (x * y))"
| "py_mul a b = float_binop float_mul a b"

fun py_truediv :: "pyval \<Rightarrow> pyval \<Rightarrow> error + pyval" where
  "py_truediv (PyInt x) (PyInt y) =
     (case int_true_divide x y of Inl e \<Rightarrow> Inl e | Inr z \<Rightarrow> Inr (PyFloat z))"
| "py_truediv a b = (case to_float a of Inl e \<Rightarrow> Inl e | Inr x \<Rightarrow>
     (case to_float b of Inl e \<Rightarrow> Inl e | Inr y \<Rightarrow>
        if float_is_zero y then Inl ZeroDivisionError else Inr (PyFloat (float_div x y))))"

fun py_pos :: "pyval \<Rightarrow> pyval" where
  "py_pos v = v"

fun py_neg :: "pyval \<Rightarrow> pyval" where
  "py_neg (PyInt i) = PyInt (- i)"
| "py_neg (PyFloat x) = PyFloat (float_neg x)"

text \<open>A number is zero: the integer \<open>0\<close> or one of the floats \<open>0.0\<close> and \<open>-0.0\<close>.\<close>

fun py_is_zero :: "pyval \<Rightarrow> bool" where
  "py_is_zero (PyInt i) = (i = 0)"
| "py_is_zero (PyFloat x) = float_is_zero x"

text \<open>The rational number a Python number stands for; none for infinities and NaN.\<close>

fun float_value :: "pyfloat \<Rightarrow> rat option" where
  "float_value (Finite s m e) =
     Some ((if s then - 1 else 1) * of_nat m * (if 0 \<le> e then 2 ^ nat e else 1 / 2 ^ nat (- e)))"
| "float_value _ = None"

fun numeric_value :: "pyval \<Rightarrow> rat option" where
  "numeric_value (PyInt i) = Some (of_int i)"
| "numeric_value (PyFloat x) = float_value x"

subsection \<open>Interpreter\<close>

type_synonym scope = "string \<rightharpoonup> pyval"

text \<open>
  \<^verbatim>\<open>visit\<close> on expression nodes: \<^verbatim>\<open>visit_BinOp\<close>, \<^verbatim>\<open>visit_Num\<close>, \<^verbatim>\<open>visit_UnaryOp\<close>,
  \<^verbatim>\<open>visit_Var\<close>. The dictionary \<^verbatim>\<open>GLOBAL_SCOPE\<close> goes in and comes out, also when an
  exception is raised. Each branch of \<^verbatim>\<open>visit_BinOp\<close> visits the left operand, then the
  right one, then applies its operator.
\<close>

fun visit_expr :: "expr_ast \<Rightarrow> scope \<Rightarrow> (error + pyval) \<times> scope" where
  "visit_expr (BinOp left op right) env =
     (case visit_expr left env of
        (Inl e, env1) \<Rightarrow> (Inl e, env1)
      | (Inr a, env1) \<Rightarrow>
          (case visit_expr right env1 of
             (Inl e, env2) \<Rightarrow> (Inl e, env2)
           | (Inr b, env2) \<Rightarrow>
               ((case op of BPlus \<Rightarrow> py_add a b | BMinus \<Rightarrow> py_sub a b
                   | BMul \<Rightarrow> py_mul a b | BDiv \<Rightarrow> py_truediv a b), env2)))"
| "visit_expr (Num n) env = (Inr (PyInt n), env)"
| "visit_expr (UnaryOp op operand) env =
     (case visit_expr operand env of
        (Inl e, env1) \<Rightarrow> (Inl e, env1)
      | (Inr a, env1) \<Rightarrow> (Inr (case op of UPlus \<Rightarrow> py_pos a | UMinus \<Rightarrow> py_neg a), env1))"
| "visit_expr (Var var_name) env =
     (case env var_name of
        None \<Rightarrow> (Inl (NameError var_name), env)
      | Some val \<Rightarrow> (Inr val, env))"

text \<open>
  \<^verbatim>\<open>visit\<close> on statement nodes: \<^verbatim>\<open>visit_Compound\<close> (with its loop \<open>visit_children\<close>),
  \<^verbatim>\<open>visit_NoOp\<close>, \<^verbatim>\<open>visit_Assign\<close>. They return \<^verbatim>\<open>None\<close>, here \<open>()\<close>.
\<close>

fun visit_stmt :: "stmt_ast \<Rightarrow> scope \<Rightarrow> (error + unit) \<times> scope"
  and visit_children :: "stmt_ast list \<Rightarrow> scope \<Rightarrow> (error + unit) \<times> scope" where
  "visit_stmt (Compound children) env = visit_children children env"
| "visit_stmt NoOp env = (Inr (), env)"
| "visit_stmt (Assign var_name right) env =
     (case visit_expr right env of
        (Inl e, env1) \<Rightarrow> (Inl e, env1)
      | (Inr v, env1) \<Rightarrow> (Inr (), env1(var_name \<mapsto> v)))"
| "visit_children [] env = (Inr (), env)"
| "visit_children (child # rest) env =
     (case visit_stmt child env of
        (Inl e, env1) \<Rightarrow> (Inl e, env1)
      | (Inr _, env1) \<Rightarrow> visit_children rest env1)"

record interpreter =
  parser :: parser
  GLOBAL_SCOPE :: scope

definition Interpreter :: "parser \<Rightarrow> interpreter" where
  "Interpreter p = \<lparr>parser = p, GLOBAL_SCOPE = Map.empty\<rparr>"

text \<open>
  The method \<^verbatim>\<open>interpret\<close>. When the parser raises, the dictionary has not been
  touched; the state in which the parser object is left then is not recorded.
\<close>

definition interpreter_interpret :: "interpreter \<Rightarrow> (error + unit) \<times> interpreter" where
  "interpreter_interpret i = (case parse (parser i) of
      Inl e \<Rightarrow> (Inl e, i)
    | Inr (tree, p1) \<Rightarrow>
        (case visit_stmt tree (GLOBAL_SCOPE i) of
           (r, env) \<Rightarrow> (r, i\<lparr>parser := p1, GLOBAL_SCOPE := env\<rparr>)))"

text \<open>
  What one round of the loop of \<^verbatim>\<open>main\<close> does with a line of input, after the test
  that skips an empty line and without the printing: a lexer, a parser and an interpreter
  are built and \<^verbatim>\<open>interpret\<close> is called. The result is what is returned or raised, and
  the dictionary at that moment (empty when no interpreter was built).
\<close>

definition main_line :: "string \<Rightarrow> (error + unit) \<times> scope" where
  "main_line txt = (case Lexer txt of Inl e \<Rightarrow> (Inl e, Map.empty) | Inr lx \<Rightarrow>
     (case Parser lx of Inl e \<Rightarrow> (Inl e, Map.empty) | Inr p \<Rightarrow>
       (case interpreter_interpret (Interpreter p) of (r, i) \<Rightarrow> (r, GLOBAL_SCOPE i))))"

text \<open>
  The syntax tree of the program in a string, and that of a bare expression: the
  rule \<^verbatim>\<open>expr\<close> applied to a fresh parser, with the type of the token at which it stopped.
\<close>

definition parse_program :: "string \<Rightarrow> error + stmt_ast" where
  "parse_program txt = (case Lexer txt of Inl e \<Rightarrow> Inl e | Inr lx \<Rightarrow>
     (case Parser lx of Inl e \<Rightarrow> Inl e | Inr p \<Rightarrow>
       (case parse p of Inl e \<Rightarrow> Inl e | Inr (tree, p1) \<Rightarrow> Inr tree)))"

definition parse_expression :: "string \<Rightarrow> error + (expr_ast \<times> toktype)" where
  "parse_expression txt = (case Lexer txt of Inl e \<Rightarrow> Inl e | Inr lx \<Rightarrow>
     (case Parser lx of Inl e \<Rightarrow> Inl e | Inr p \<Rightarrow>
       (case expr p of Inl e \<Rightarrow> Inl e
        | Inr (node, p1) \<Rightarrow> Inr (node, tok_type (current_token p1)))))"

text \<open>
  Modelled from the spec: the entry point of the expression-only dialect, which is
  absent from the sources. The spec has it parse the \<^verbatim>\<open>expr\<close> grammar directly and evaluate
  the tree; the rule \<^verbatim>\<open>expr\<close> and the visitor are those of the source.
\<close>

definition evaluate_expression :: "string \<Rightarrow> scope \<Rightarrow> (error + pyval) \<times> scope" where
  "evaluate_expression txt env = (case parse_expression txt of
      Inl e \<Rightarrow> (Inl e, env)
    | Inr (node, t) \<Rightarrow> visit_expr node env)"

subsection \<open>Stacks of unary operators\<close>

text \<open>
  To speak about any number of stacked unary operators: the character and the token
  of an operator, and what it does to an integer.
\<close>

fun sign_char :: "unary_operator \<Rightarrow> char" where
  "sign_char UPlus = CHR ''+''"
| "sign_char UMinus = CHR ''-''"

fun sign_token :: "unary_operator \<Rightarrow> token" where
  "sign_token UPlus = Token PLUS (StrVal ''+'')"
| "sign_token UMinus = Token MINUS (StrVal ''-'')"

fun apply_sign :: "unary_operator \<Rightarrow> int \<Rightarrow> int" where
  "apply_sign UPlus n = n"
| "apply_sign UMinus n = - n"

text \<open>
  A run of unary operator tokens eaten by the parser, from one state to another, and
  what a unary operator does to a number.
\<close>

inductive eats_signs :: "unary_operator list \<Rightarrow> parser \<Rightarrow> parser \<Rightarrow> bool" where
  none: "eats_signs [] p p"
| sign: "tok_type (current_token p) = tok_type (sign_token op) \<Longrightarrow>
     eat (tok_type (sign_token op)) p = Inr p1 \<Longrightarrow> eats_signs ops p1 q \<Longrightarrow>
     eats_signs (op # ops) p q"

fun apply_unary :: "unary_operator \<Rightarrow> pyval \<Rightarrow> pyval" where
  "apply_unary UPlus a = py_pos a"
| "apply_unary UMinus a = py_neg a"

subsection \<open>Chains of binary operators\<close>

text \<open>
  To speak about every chain \<^verbatim>\<open>n0 op1 n1 op2 n2 ...\<close> of integer literals: the character
  and the token of a binary operator, the two precedence levels, the value of a literal,
  the text of a chain after its first literal, the tree in which every operator takes
  the tree built so far as its left child, and the value computed from left to right.
  \<open>lexer_at T k\<close> is the lexer on \<open>T\<close> with its cursor at \<open>k\<close>, and \<open>chain_state T k ops\<close>
  the parser that has just read a literal ending at \<open>k\<close> and holds the first operator
  of \<open>ops\<close>, or \<^verbatim>\<open>EOF\<close>, as current token.
\<close>

fun bin_char :: "binary_operator \<Rightarrow> char" where
  "bin_char BPlus = CHR ''+''"
| "bin_char BMinus = CHR ''-''"
| "bin_char BMul = CHR ''*''"
| "bin_char BDiv = CHR ''/''"

fun bin_token :: "binary_operator \<Rightarrow> token" where
  "bin_token BPlus = Token PLUS (StrVal ''+'')"
| "bin_token BMinus = Token MINUS (StrVal ''-'')"
| "bin_token BMul = Token MUL (StrVal ''*'')"
| "bin_token BDiv = Token DIV (StrVal ''/'')"

fun additive :: "binary_operator \<Rightarrow> bool" where
  "additive BPlus = True"
| "additive BMinus = True"
| "additive _ = False"

definition digits_value :: "string \<Rightarrow> int" where
  "digits_value s = foldl (\<lambda>n c. 10 * n + (int (ord c) - 48)) 0 s"

definition literal :: "string \<Rightarrow> bool" where
  "literal ds = (ds \<noteq> [] \<and> list_all isdecimal ds)"

fun chain_text :: "(binary_operator \<times> string) list \<Rightarrow> string" where
  "chain_text [] = []"
| "chain_text ((op, ds) # ops) = bin_char op # ds @ chain_text ops"

fun chain_tree :: "expr_ast \<Rightarrow> (binary_operator \<times> string) list \<Rightarrow> expr_ast" where
  "chain_tree node [] = node"
| "chain_tree node ((op, ds) # ops) = chain_tree (BinOp node op (Num (digits_value ds))) ops"

fun chain_value :: "pyval \<Rightarrow> (binary_operator \<times> string) list \<Rightarrow> error + pyval" where
  "chain_value a [] = Inr a"
| "chain_value a ((op, ds) # ops) =
     (case (case op of BPlus \<Rightarrow> py_add a (PyInt (digits_value ds))
              | BMinus \<Rightarrow> py_sub a (PyInt (digits_value ds))
              | BMul \<Rightarrow> py_mul a (PyInt (digits_value ds))
              | BDiv \<Rightarrow> py_truediv a (PyInt (digits_value ds))) of
        Inl e \<Rightarrow> Inl e
      | Inr b \<Rightarrow> chain_value b ops)"

definition lexer_at :: "string \<Rightarrow> nat \<Rightarrow> lexer" where
  "lexer_at T k = \<lparr>src_text = T, pos = k,
     current_char = (if k < length T then Some (T ! k) else None)\<rparr>"

fun chain_state :: "string \<Rightarrow> nat \<Rightarrow> (binary_operator \<times> string) list \<Rightarrow> parser" where
  "chain_state T k [] = \<lparr>lexer = lexer_at T k, current_token = Token EOF NoneVal\<rparr>"
| "chain_state T k ((op, ds) # ops) = \<lparr>lexer = lexer_at T (Suc k), current_token = bin_token op\<rparr>"

section \<open>Termination of the lexer and the parser\<close>

declare skip_whitespace.simps [simp del] integer_loop.simps [simp del] id_loop.simps [simp del]
  bit_length.simps [simp del] normalize_odd.simps [simp del]

lemma remaining_advance: "current_char l \<noteq> None \<Longrightarrow> remaining (advance l) < remaining l"
  by (auto simp: remaining_def advance_def Let_def)

lemma remaining_advance_le: "remaining (advance l) \<le> remaining l"
  by (auto simp: remaining_def advance_def Let_def split: option.splits)

lemma remaining_skip_whitespace: "remaining (skip_whitespace l) \<le> remaining l"
proof (induction l rule: skip_whitespace.induct)
  case (1 l)
  show ?case
  proof (cases "current_char l")
    case None
    then show ?thesis by (simp add: skip_whitespace.simps)
  next
    case (Some c)
    show ?thesis
    proof (cases "isspace c")
      case True
      have "remaining (advance l) < remaining l" using Some by (simp add: remaining_advance)
      moreover have "remaining (skip_whitespace (advance l)) \<le> remaining (advance l)"
        using 1 Some True by simp
      ultimately show ?thesis using Some True by (simp add: skip_whitespace.simps [of l])
    next
      case False
      then show ?thesis using Some by (simp add: skip_whitespace.simps)
    qed
  qed
qed

lemma remaining_skip_whitespace_less:
  assumes "current_char l = Some c" and "isspace c"
  shows "remaining (skip_whitespace l) < remaining l"
proof -
  have "skip_whitespace l = skip_whitespace (advance l)"
    using assms by (simp add: skip_whitespace.simps [of l])
  moreover have "remaining (advance l) < remaining l"
    using assms by (simp add: remaining_advance)
  ultimately show ?thesis
    using remaining_skip_whitespace [of "advance l"] by simp
qed

termination get_next_token
  by (relation "measure remaining") (auto simp: remaining_skip_whitespace_less)

declare get_next_token.simps [simp del]

lemma token_value_kind:
  "get_next_token l = Inr (t, l') \<Longrightarrow>
     (tok_type t = INTEGER \<longrightarrow> (\<exists>n. tok_value t = IntVal n))
     \<and> (tok_type t = ID \<longrightarrow> (\<exists>s. tok_value t = StrVal s))"
proof (induction l rule: get_next_token.induct)
  case (1 l)
  show ?case
  proof (cases "current_char l")
    case None
    then show ?thesis using "1.prems" by (auto simp: get_next_token.simps [of l])
  next
    case (Some c)
    show ?thesis
    proof (cases "isspace c \<and> \<not> isalpha c \<and> \<not> (c = CHR '':'' \<and> peek l = Some CHR ''='')
        \<and> c \<noteq> CHR '';'' \<and> c \<noteq> CHR ''.''")
      case True
      then have "get_next_token l = get_next_token (skip_whitespace l)"
        using Some by (auto simp: get_next_token.simps [of l])
      then have "get_next_token (skip_whitespace l) = Inr (t, l')" using "1.prems" by simp
      then show ?thesis using "1.IH" [of c] Some True by simp
    next
      case False
      then show ?thesis
        using "1.prems" Some
        by (auto simp: get_next_token.simps [of l] lexer_id_def RESERVED_KEYWORDS_def
            split: if_splits sum.splits prod.splits option.splits)
    qed
  qed
qed


lemma remaining_id_loop: "remaining (snd (id_loop r l)) \<le> remaining l"
proof (induction r l rule: id_loop.induct)
  case (1 result l)
  show ?case
  proof (cases "current_char l")
    case None
    then show ?thesis by (simp add: id_loop.simps)
  next
    case (Some c)
    show ?thesis
    proof (cases "isalnum c")
      case True
      have "remaining (snd (id_loop (result @ [c]) (advance l))) \<le> remaining (advance l)"
        using 1 Some True by simp
      then show ?thesis
        using Some True remaining_advance_le [of l] by (simp add: id_loop.simps [of result l])
    next
      case False
      then show ?thesis using Some by (simp add: id_loop.simps)
    qed
  qed
qed

lemma remaining_integer_loop: "remaining (snd (integer_loop r l)) \<le> remaining l"
proof (induction r l rule: integer_loop.induct)
  case (1 result l)
  show ?case
  proof (cases "current_char l")
    case None
    then show ?thesis by (simp add: integer_loop.simps)
  next
    case (Some c)
    show ?thesis
    proof (cases "isdigit c")
      case True
      have "remaining (snd (integer_loop (result @ [c]) (advance l))) \<le> remaining (advance l)"
        using 1 Some True by simp
      then show ?thesis
        using Some True remaining_advance_le [of l] by (simp add: integer_loop.simps [of result l])
    next
      case False
      then show ?thesis using Some by (simp add: integer_loop.simps)
    qed
  qed
qed

lemma remaining_lexer_id:
  assumes "current_char l = Some c" "isalpha c"
  shows "remaining (snd (lexer_id l)) < remaining l \<and> tok_type (fst (lexer_id l)) \<noteq> EOF"
proof -
  have "isalnum c" using assms by (simp add: isalnum_def)
  then have "id_loop [] l = id_loop [c] (advance l)"
    using assms by (simp add: id_loop.simps [of "[]" l])
  moreover have "remaining (snd (id_loop [c] (advance l))) \<le> remaining (advance l)"
    by (rule remaining_id_loop)
  moreover have "remaining (advance l) < remaining l"
    using assms by (simp add: remaining_advance)
  ultimately show ?thesis
    by (auto simp: lexer_id_def RESERVED_KEYWORDS_def split: prod.splits option.splits if_splits)
qed

lemma remaining_integer:
  assumes "current_char l = Some c" "isdigit c" "integer l = Inr (n, l')"
  shows "remaining l' < remaining l"
proof -
  have "integer_loop [] l = integer_loop [c] (advance l)"
    using assms by (simp add: integer_loop.simps [of "[]" l])
  moreover have "remaining (snd (integer_loop [c] (advance l))) \<le> remaining (advance l)"
    by (rule remaining_integer_loop)
  moreover have "remaining (advance l) < remaining l"
    using assms by (simp add: remaining_advance)
  ultimately show ?thesis
    using assms(3) by (auto simp: integer_def split: prod.splits sum.splits)
qed

lemma remaining_get_next_token:
  "get_next_token l = Inr (t, l') \<Longrightarrow>
     remaining l' \<le> remaining l \<and> (tok_type t \<noteq> EOF \<longrightarrow> remaining l' < remaining l)"
proof (induction l rule: get_next_token.induct)
  case (1 l)
  show ?case
  proof (cases "current_char l")
    case None
    then show ?thesis using "1.prems" by (auto simp: get_next_token.simps [of l])
  next
    case (Some c)
    have adv: "remaining (advance l) < remaining l" using Some by (simp add: remaining_advance)
    have adv2: "remaining (advance (advance l)) < remaining l"
      using adv remaining_advance_le [of "advance l"] by simp
    show ?thesis
    proof (cases "isspace c \<and> \<not> isalpha c \<and> \<not> (c = CHR '':'' \<and> peek l = Some CHR ''='') \<and> c \<noteq> CHR '';'' \<and> c \<noteq> CHR ''.''")
      case True
      then have "get_next_token l = get_next_token (skip_whitespace l)"
        using Some by (auto simp: get_next_token.simps [of l])
      then have "get_next_token (skip_whitespace l) = Inr (t, l')" using "1.prems" by simp
      then have "remaining l' \<le> remaining (skip_whitespace l)
          \<and> (tok_type t \<noteq> EOF \<longrightarrow> remaining l' < remaining (skip_whitespace l))"
        using "1.IH" [of c] Some True by simp
      then show ?thesis using remaining_skip_whitespace_less [of l c] Some True by auto
    next
      case False
      then show ?thesis
        using "1.prems" Some adv adv2 remaining_lexer_id [of l c] remaining_integer [of l c]
        by (auto simp: get_next_token.simps [of l] split: if_splits sum.splits)
    qed
  qed
qed

lemma psize_eat: "eat tt p = Inr p1 \<Longrightarrow> tt \<noteq> EOF \<Longrightarrow> psize p1 < psize p"
  by (auto simp: eat_def psize_def split: if_splits sum.splits dest!: remaining_get_next_token)

lemma psize_variable: "variable p = Inr (n, p1) \<Longrightarrow> psize p1 < psize p"
  by (auto simp: variable_def Let_def split: sum.splits dest: psize_eat)

lemma psize_expr_partial:
  "factor_parser_term_term_loop_expr_expr_loop_dom (Inl (Inl p)) \<Longrightarrow>
     (\<forall>n p'. factor p = Inr (n, p') \<longrightarrow> psize p' \<le> psize p)"
  "factor_parser_term_term_loop_expr_expr_loop_dom (Inl (Inr p)) \<Longrightarrow>
     (\<forall>n p'. parser_term p = Inr (n, p') \<longrightarrow> psize p' \<le> psize p)"
  "factor_parser_term_term_loop_expr_expr_loop_dom (Inr (Inl (node, p))) \<Longrightarrow>
     (\<forall>n p'. term_loop node p = Inr (n, p') \<longrightarrow> psize p' \<le> psize p)"
  "factor_parser_term_term_loop_expr_expr_loop_dom (Inr (Inr (Inl p))) \<Longrightarrow>
     (\<forall>n p'. expr p = Inr (n, p') \<longrightarrow> psize p' \<le> psize p)"
  "factor_parser_term_term_loop_expr_expr_loop_dom (Inr (Inr (Inr (node, p)))) \<Longrightarrow>
     (\<forall>n p'. expr_loop node p = Inr (n, p') \<longrightarrow> psize p' \<le> psize p)"
proof (induct rule: factor_parser_term_term_loop_expr_expr_loop.pinduct)
  case (1 p)
  note eq = factor.psimps [OF 1(1)]
  show ?case
  proof (intro allI impI)
    fix n p' assume res: "factor p = Inr (n, p')"
    show "psize p' \<le> psize p"
    proof (cases "tok_type (current_token p)")
      case PLUS
      then obtain p1 n1 where e: "eat PLUS p = Inr p1" and f: "factor p1 = Inr (n1, p')"
        using res by (auto simp: eq Let_def split: sum.splits)
      from 1(2) [of "current_token p" p1] PLUS e f have "psize p' \<le> psize p1" by simp
      with psize_eat [OF e] show ?thesis by simp
    next
      case MINUS
      then obtain p1 n1 where e: "eat MINUS p = Inr p1" and f: "factor p1 = Inr (n1, p')"
        using res by (auto simp: eq Let_def split: sum.splits)
      from 1(3) [of "current_token p" p1] MINUS e f have "psize p' \<le> psize p1" by simp
      with psize_eat [OF e] show ?thesis by simp
    next
      case INTEGER
      then have "eat INTEGER p = Inr p'"
        using res by (auto simp: eq Let_def split: sum.splits)
      from psize_eat [OF this] show ?thesis by simp
    next
      case LPAREN
      then obtain p1 n1 p2 where e: "eat LPAREN p = Inr p1" and f: "expr p1 = Inr (n1, p2)"
          and g: "eat RPAREN p2 = Inr p'"
        using res by (auto simp: eq Let_def split: sum.splits)
      from 1(4) [of "current_token p" p1] LPAREN e f have "psize p2 \<le> psize p1" by simp
      with psize_eat [OF e] psize_eat [OF g] show ?thesis by simp
    next
      case ID
      then obtain name where "variable p = Inr (name, p')"
        using res by (auto simp: eq Let_def split: sum.splits)
      from psize_variable [OF this] show ?thesis by simp
    qed (use res in \<open>simp_all add: eq Let_def\<close>)
  qed
next
  case (2 p)
  note eq = parser_term.psimps [OF 2(1)]
  show ?case
  proof (intro allI impI)
    fix n p' assume res: "parser_term p = Inr (n, p')"
    then obtain n1 p1 where f: "factor p = Inr (n1, p1)" and g: "term_loop n1 p1 = Inr (n, p')"
      by (auto simp: eq split: sum.splits)
    from 2(2) f have "psize p1 \<le> psize p" by simp
    moreover from 2(3) [OF f refl] g have "psize p' \<le> psize p1" by simp
    ultimately show "psize p' \<le> psize p" by simp
  qed
next
  case (3 node p)
  note eq = term_loop.psimps [OF 3(1)]
  show ?case
  proof (intro allI impI)
    fix n p' assume res: "term_loop node p = Inr (n, p')"
    show "psize p' \<le> psize p"
    proof (cases "tok_type (current_token p)")
      case MUL
      then obtain p1 r p2 where e: "eat MUL p = Inr p1" and f: "factor p1 = Inr (r, p2)"
          and g: "term_loop (BinOp node BMul r) p2 = Inr (n, p')"
        using res by (auto simp: eq Let_def split: sum.splits)
      from 3(2) [of "current_token p" p1] MUL e f have "psize p2 \<le> psize p1" by simp
      moreover from 3(3) [of "current_token p" p1 "(r, p2)" r p2] MUL e f g
      have "psize p' \<le> psize p2" by simp
      ultimately show ?thesis using psize_eat [OF e] by simp
    next
      case DIV
      then obtain p1 r p2 where e: "eat DIV p = Inr p1" and f: "factor p1 = Inr (r, p2)"
          and g: "term_loop (BinOp node BDiv r) p2 = Inr (n, p')"
        using res by (auto simp: eq Let_def split: sum.splits)
      from 3(4) [of "current_token p" p1] DIV e f have "psize p2 \<le> psize p1" by simp
      moreover from 3(5) [of "current_token p" p1 "(r, p2)" r p2] DIV e f g
      have "psize p' \<le> psize p2" by simp
      ultimately show ?thesis using psize_eat [OF e] by simp
    qed (use res in \<open>simp_all add: eq Let_def\<close>)
  qed
next
  case (4 p)
  note eq = expr.psimps [OF 4(1)]
  show ?case
  proof (intro allI impI)
    fix n p' assume res: "expr p = Inr (n, p')"
    then obtain n1 p1 where f: "parser_term p = Inr (n1, p1)" and g: "expr_loop n1 p1 = Inr (n, p')"
      by (auto simp: eq split: sum.splits)
    from 4(2) f have "psize p1 \<le> psize p" by simp
    moreover from 4(3) [OF f refl] g have "psize p' \<le> psize p1" by simp
    ultimately show "psize p' \<le> psize p" by simp
  qed
next
  case (5 node p)
  note eq = expr_loop.psimps [OF 5(1)]
  show ?case
  proof (intro allI impI)
    fix n p' assume res: "expr_loop node p = Inr (n, p')"
    show "psize p' \<le> psize p"
    proof (cases "tok_type (current_token p)")
      case PLUS
      then obtain p1 r p2 where e: "eat PLUS p = Inr p1" and f: "parser_term p1 = Inr (r, p2)"
          and g: "expr_loop (BinOp node BPlus r) p2 = Inr (n, p')"
        using res by (auto simp: eq Let_def split: sum.splits)
      from 5(2) [of "current_token p" p1] PLUS e f have "psize p2 \<le> psize p1" by simp
      moreover from 5(3) [of "current_token p" p1 "(r, p2)" r p2] PLUS e f g
      have "psize p' \<le> psize p2" by simp
      ultimately show ?thesis using psize_eat [OF e] by simp
    next
      case MINUS
      then obtain p1 r p2 where e: "eat MINUS p = Inr p1" and f: "parser_term p1 = Inr (r, p2)"
          and g: "expr_loop (BinOp node BMinus r) p2 = Inr (n, p')"
        using res by (auto simp: eq Let_def split: sum.splits)
      from 5(4) [of "current_token p" p1] MINUS e f have "psize p2 \<le> psize p1" by simp
      moreover from 5(5) [of "current_token p" p1 "(r, p2)" r p2] MINUS e f g
      have "psize p' \<le> psize p2" by simp
      ultimately show ?thesis using psize_eat [OF e] by simp
    qed (use res in \<open>simp_all add: eq Let_def\<close>)
  qed
qed

lemma psize_factor_dom:
  assumes "factor_parser_term_term_loop_expr_expr_loop_dom (Inl (Inl p))"
    and "factor p = Inr (n, p')"
  shows "psize p' \<le> psize p"
  by (rule psize_expr_partial(1) [OF assms(1), rule_format, OF assms(2)])

lemma psize_parser_term_dom:
  assumes "factor_parser_term_term_loop_expr_expr_loop_dom (Inl (Inr p))"
    and "parser_term p = Inr (n, p')"
  shows "psize p' \<le> psize p"
  by (rule psize_expr_partial(2) [OF assms(1), rule_format, OF assms(2)])

lemma expr_rules_total: "All factor_parser_term_term_loop_expr_expr_loop_dom"
  apply (relation "inv_image (less_than <*lex*> less_than) expr_rank")
  apply (intro wf_inv_image wf_lex_prod wf_less_than)
  apply (auto simp: expr_rank_def dest: psize_eat)
  subgoal for p a b using psize_factor_dom [of p a b] by simp
  subgoal for p b a ba using psize_factor_dom [of b a ba] psize_eat [of MUL p b] by simp
  subgoal for p b a ba using psize_factor_dom [of b a ba] psize_eat [of DIV p b] by simp
  subgoal for p a b using psize_parser_term_dom [of p a b] by simp
  subgoal for p b a ba using psize_parser_term_dom [of b a ba] psize_eat [of PLUS p b] by simp
  subgoal for p b a ba using psize_parser_term_dom [of b a ba] psize_eat [of MINUS p b] by simp
  done

termination factor
  by (rule expr_rules_total)

declare factor.simps [simp del] parser_term.simps [simp del] term_loop.simps [simp del]
  expr.simps [simp del] expr_loop.simps [simp del]

lemma psize_expr: "expr p = Inr (n, p') \<Longrightarrow> psize p' \<le> psize p"
  by (rule psize_expr_partial(4) [OF expr_rules_total [THEN spec], rule_format])

lemma psize_parser_term: "parser_term p = Inr (n, p') \<Longrightarrow> psize p' \<le> psize p"
  by (rule psize_expr_partial(2) [OF expr_rules_total [THEN spec], rule_format])

lemma psize_factor: "factor p = Inr (n, p') \<Longrightarrow> psize p' \<le> psize p"
  by (rule psize_expr_partial(1) [OF expr_rules_total [THEN spec], rule_format])

lemma psize_assignment_statement: "assignment_statement p = Inr (n, p') \<Longrightarrow> psize p' < psize p"
  by (fastforce simp: assignment_statement_def split: sum.splits prod.splits
      dest: psize_variable psize_eat psize_expr)

lemma psize_stmt_partial:
  "compound_statement_statement_list_statement_list_loop_statement_dom (Inl (Inl p)) \<Longrightarrow>
     (\<forall>n p'. compound_statement p = Inr (n, p') \<longrightarrow> psize p' \<le> psize p)"
  "compound_statement_statement_list_statement_list_loop_statement_dom (Inl (Inr p)) \<Longrightarrow>
     (\<forall>ns p'. statement_list p = Inr (ns, p') \<longrightarrow> psize p' \<le> psize p)"
  "compound_statement_statement_list_statement_list_loop_statement_dom (Inr (Inl (results, p))) \<Longrightarrow>
     (\<forall>ns p'. statement_list_loop results p = Inr (ns, p') \<longrightarrow> psize p' \<le> psize p)"
  "compound_statement_statement_list_statement_list_loop_statement_dom (Inr (Inr p)) \<Longrightarrow>
     (\<forall>n p'. statement p = Inr (n, p') \<longrightarrow> psize p' \<le> psize p)"
proof (induct rule: compound_statement_statement_list_statement_list_loop_statement.pinduct)
  case (1 p)
  note eq = compound_statement.psimps [OF 1(1)]
  show ?case
  proof (intro allI impI)
    fix n p' assume res: "compound_statement p = Inr (n, p')"
    then obtain p1 ns p2 where e: "eat BEGIN p = Inr p1" and f: "statement_list p1 = Inr (ns, p2)"
        and g: "eat END p2 = Inr p'"
      by (auto simp: eq split: sum.splits)
    from 1(2) [OF e] f have "psize p2 \<le> psize p1" by simp
    with psize_eat [OF e] psize_eat [OF g] show "psize p' \<le> psize p" by simp
  qed
next
  case (2 p)
  note eq = statement_list.psimps [OF 2(1)]
  show ?case
  proof (intro allI impI)
    fix ns p' assume res: "statement_list p = Inr (ns, p')"
    then obtain n1 p1 where f: "statement p = Inr (n1, p1)"
        and g: "statement_list_loop [n1] p1 = Inr (ns, p')"
      by (auto simp: eq split: sum.splits)
    from 2(2) f have "psize p1 \<le> psize p" by simp
    moreover from 2(3) [OF f refl] g have "psize p' \<le> psize p1" by simp
    ultimately show "psize p' \<le> psize p" by simp
  qed
next
  case (3 results p)
  note eq = statement_list_loop.psimps [OF 3(1)]
  show ?case
  proof (intro allI impI)
    fix ns p' assume res: "statement_list_loop results p = Inr (ns, p')"
    show "psize p' \<le> psize p"
    proof (cases "tok_type (current_token p) = SEMI")
      case True
      then obtain p1 n1 p2 where e: "eat SEMI p = Inr p1" and f: "statement p1 = Inr (n1, p2)"
          and g: "statement_list_loop (results @ [n1]) p2 = Inr (ns, p')"
        using res by (auto simp: eq split: sum.splits)
      from 3(2) [OF True e] f have "psize p2 \<le> psize p1" by simp
      moreover from 3(3) [OF True e f refl] g have "psize p' \<le> psize p2" by simp
      ultimately show ?thesis using psize_eat [OF e] by simp
    next
      case False
      then show ?thesis using res by (simp add: eq)
    qed
  qed
next
  case (4 p)
  note eq = statement.psimps [OF 4(1)]
  show ?case
  proof (intro allI impI)
    fix n p' assume res: "statement p = Inr (n, p')"
    show "psize p' \<le> psize p"
    proof (cases "tok_type (current_token p) = BEGIN")
      case True
      then show ?thesis using res 4(2) by (simp add: eq)
    next
      case False
      then show ?thesis
        using res psize_assignment_statement [of p n p']
        by (auto simp: eq parser_empty_def split: if_splits)
    qed
  qed
qed

lemma psize_statement_dom:
  assumes "compound_statement_statement_list_statement_list_loop_statement_dom (Inr (Inr p))"
    and "statement p = Inr (n, p')"
  shows "psize p' \<le> psize p"
  by (rule psize_stmt_partial(4) [OF assms(1), rule_format, OF assms(2)])

lemma stmt_rules_total: "All compound_statement_statement_list_statement_list_loop_statement_dom"
  apply (relation "inv_image (less_than <*lex*> less_than) stmt_rank")
  apply (intro wf_inv_image wf_lex_prod wf_less_than)
  apply (auto simp: stmt_rank_def dest: psize_eat)
  subgoal for p a b using psize_statement_dom [of p a b] by simp
  subgoal for p b a ba using psize_statement_dom [of b a ba] psize_eat [of SEMI p b] by simp
  done

termination compound_statement
  by (rule stmt_rules_total)

declare compound_statement.simps [simp del] statement_list.simps [simp del]
  statement_list_loop.simps [simp del] statement.simps [simp del]


section \<open>Evaluation of the model on concrete input\<close>

text \<open>
  The equations that the simplifier needs to run the lexer, the parser and the float
  arithmetic on a given string.
\<close>

lemmas lexer_eval = Lexer_def get_next_token.simps lexer_id_def id_loop.simps integer_def
  integer_loop.simps py_int_def skip_whitespace.simps advance_def peek_def
  RESERVED_KEYWORDS_def isalpha_def isalnum_def isdigit_def isdecimal_def isnumeric_def
  isspace_def ord_def Let_def

lemmas parser_eval = Parser_def parse_def program_def compound_statement.simps
  statement_list.simps statement_list_loop.simps statement.simps assignment_statement_def
  variable_def parser_empty_def eat_def factor.simps parser_term.simps term_loop.simps
  expr.simps expr_loop.simps

lemmas float_eval = int_true_divide_def int_to_float_def round_to_double_def floor_log2_def
  bit_length.simps round_half_even_def normalize_odd.simps float_of_scaled_def
  float_binop_def float_sub_def

lemmas run_eval = main_line_def interpreter_interpret_def Interpreter_def parse_program_def
  parse_expression_def evaluate_expression_def

section \<open>Expressions leave the dictionary alone\<close>

lemma visit_expr_scope: "snd (visit_expr e env) = env"
proof (induction e)
  case (BinOp left op right)
  obtain a where l: "visit_expr left env = (a, env)"
    using BinOp.IH(1) by (cases "visit_expr left env") simp
  obtain b where r: "visit_expr right env = (b, env)"
    using BinOp.IH(2) by (cases "visit_expr right env") simp
  show ?case using l r by (simp split: sum.splits)
next
  case (Num n)
  show ?case by simp
next
  case (UnaryOp op operand)
  obtain a where "visit_expr operand env = (a, env)"
    using UnaryOp.IH by (cases "visit_expr operand env") simp
  then show ?case by (simp split: sum.splits)
next
  case (Var var_name)
  show ?case by (simp split: option.splits)
qed

section \<open>The statement program\<close>

text \<open>
  C1. The program \<^verbatim>\<open>BEGIN a := 2; b := 10 * a + 10 / 5; END.\<close>, run by \<^verbatim>\<open>main\<close> on a
  fresh interpreter (whose dictionary is empty), returns normally with no value, and leaves
  a dictionary with exactly two entries: \<^verbatim>\<open>a\<close> is the integer 2 and \<^verbatim>\<open>b\<close> is the number 22.
  The value of \<^verbatim>\<open>b\<close> is the float \<^verbatim>\<open>22.0\<close>, because \<^verbatim>\<open>10 / 5\<close> is a float; as a number it
  is 22.
\<close>

theorem statement_program_result:
  "main_line ''BEGIN a := 2; b := 10 * a + 10 / 5; END.'' =
     (Inr (), [''a'' \<mapsto> PyInt 2, ''b'' \<mapsto> PyFloat (Finite False 11 1)])
   \<and> numeric_value (PyInt 2) = Some 2
   \<and> numeric_value (PyFloat (Finite False 11 1)) = Some 22"
  by (simp add: run_eval lexer_eval parser_eval float_eval)

section \<open>Division\<close>

text \<open>
  C2. Division does not truncate: the expression \<^verbatim>\<open>7 / 2\<close> is parsed as one division
  node and evaluates to the float \<^verbatim>\<open>3.5\<close>, the rational number \<open>7/2\<close>, not to the
  integer 3. The same value is stored by the program \<^verbatim>\<open>BEGIN x := 7 / 2; END.\<close>.
\<close>

theorem true_division:
  "parse_expression ''7 / 2'' = Inr (BinOp (Num 7) BDiv (Num 2), EOF)
   \<and> evaluate_expression ''7 / 2'' env = (Inr (PyFloat (Finite False 7 (- 1))), env)
   \<and> numeric_value (PyFloat (Finite False 7 (- 1))) = Some (7 / 2)
   \<and> PyFloat (Finite False 7 (- 1)) \<noteq> PyInt 3
   \<and> main_line ''BEGIN x := 7 / 2; END.'' = (Inr (), [''x'' \<mapsto> PyFloat (Finite False 7 (- 1))])"
  by (simp add: run_eval lexer_eval parser_eval float_eval)

text \<open>
  Division by zero. A zero divisor makes \<^verbatim>\<open>/\<close> raise: \<^verbatim>\<open>ZeroDivisionError\<close>, except that
  an integer dividend too large for a float, met by a float zero, is converted first and
  raises \<^verbatim>\<open>OverflowError\<close>.
\<close>

lemma int_to_float_error: "int_to_float n = Inl e \<Longrightarrow> e = OverflowError"
  by (auto simp: int_to_float_def split: option.splits)

lemma zero_divisor_error:
  assumes "py_is_zero b"
  shows "py_truediv a b = Inl (if (\<exists>n x. a = PyInt n \<and> b = PyFloat x \<and> int_to_float n = Inl OverflowError)
           then OverflowError else ZeroDivisionError)"
proof (cases a)
  case (PyInt n)
  show ?thesis
  proof (cases b)
    case (PyInt k)
    then show ?thesis using assms \<open>a = PyInt n\<close> by (simp add: int_true_divide_def)
  next
    case (PyFloat x)
    then show ?thesis using assms \<open>a = PyInt n\<close>
      by (cases "int_to_float n") (auto dest: int_to_float_error)
  qed
next
  case (PyFloat y)
  show ?thesis
  proof (cases b)
    case (PyInt k)
    then have "k = 0" using assms by simp
    then show ?thesis using PyInt \<open>a = PyFloat y\<close>
      by (simp add: int_to_float_def round_to_double_def)
  next
    case (PyFloat x)
    then show ?thesis using assms \<open>a = PyFloat y\<close> by simp
  qed
qed

text \<open>
  C3. For every division node whose right operand evaluates to 0 (the integer or a
  float zero), visiting the node raises an arithmetic error and leaves the dictionary
  unchanged, and an assignment with such a right-hand side raises the same error and
  stores nothing. The node is visited as the source does it: the left operand, then the
  right one, then the division. The error is \<^verbatim>\<open>ZeroDivisionError\<close>, or \<^verbatim>\<open>OverflowError\<close> when
  the left value is an integer too large for a float and the zero is a float; both are
  arithmetic errors. Should the visit of the left operand itself raise, the division is
  not reached: that exception is the result, and the dictionary is unchanged as well.
\<close>

theorem division_by_zero:
  assumes "fst (visit_expr right env) = Inr b" and "py_is_zero b"
  shows "(\<forall>e. fst (visit_expr left env) = Inl e \<longrightarrow>
            visit_expr (BinOp left BDiv right) env = (Inl e, env)
            \<and> visit_stmt (Assign x (BinOp left BDiv right)) env = (Inl e, env))
    \<and> (\<forall>a. fst (visit_expr left env) = Inr a \<longrightarrow>
          (\<exists>e. visit_expr (BinOp left BDiv right) env = (Inl e, env)
             \<and> visit_stmt (Assign x (BinOp left BDiv right)) env = (Inl e, env)
             \<and> is_ArithmeticError e
             \<and> e = (if (\<exists>n y. a = PyInt n \<and> b = PyFloat y \<and> int_to_float n = Inl OverflowError)
                    then OverflowError else ZeroDivisionError)))"
proof -
  have r: "visit_expr right env = (Inr b, env)"
    using assms(1) visit_expr_scope [of right env] by (cases "visit_expr right env") simp
  have l: "visit_expr left env = (fst (visit_expr left env), env)"
    using visit_expr_scope [of left env] by (cases "visit_expr left env") simp
  show ?thesis
  proof (intro conjI allI impI)
    fix e assume "fst (visit_expr left env) = Inl e"
    then have "visit_expr left env = (Inl e, env)" using l by simp
    then show "visit_expr (BinOp left BDiv right) env = (Inl e, env)"
      and "visit_stmt (Assign x (BinOp left BDiv right)) env = (Inl e, env)"
      by simp_all
  next
    fix a assume "fst (visit_expr left env) = Inr a"
    then have la: "visit_expr left env = (Inr a, env)" using l by simp
    let ?e = "if (\<exists>n y. a = PyInt n \<and> b = PyFloat y \<and> int_to_float n = Inl OverflowError)
      then OverflowError else ZeroDivisionError"
    have d: "py_truediv a b = Inl ?e" by (rule zero_divisor_error [OF assms(2)])
    have "visit_expr (BinOp left BDiv right) env = (Inl ?e, env)"
      using la r d by simp
    moreover from this have "visit_stmt (Assign x (BinOp left BDiv right)) env = (Inl ?e, env)"
      by simp
    moreover have "is_ArithmeticError ?e" by simp
    ultimately show "\<exists>e. visit_expr (BinOp left BDiv right) env = (Inl e, env)
       \<and> visit_stmt (Assign x (BinOp left BDiv right)) env = (Inl e, env)
       \<and> is_ArithmeticError e
       \<and> e = ?e"
      by blast
  qed
qed

theorem division_by_zero_witness:
  "fst (visit_expr (Num 0) Map.empty) = Inr (PyInt 0) \<and> py_is_zero (PyInt 0)
   \<and> visit_expr (BinOp (Num 1) BDiv (Num 0)) Map.empty = (Inl ZeroDivisionError, Map.empty)
   \<and> visit_stmt (Assign ''x'' (BinOp (Num 1) BDiv (Num 0))) Map.empty
       = (Inl ZeroDivisionError, Map.empty)"
proof -
  have h1: "fst (visit_expr (Num 0) Map.empty) = Inr (PyInt 0)" by simp
  have h2: "py_is_zero (PyInt 0)" by simp
  show ?thesis
    using division_by_zero [OF h1 h2, of "Num 1" "''x''"] h1 h2 by simp
qed

text \<open>
  Instances: \<^verbatim>\<open>1 / 0\<close> raises \<^verbatim>\<open>ZeroDivisionError\<close>; in a block the assignments before
  the failing one persist; the overflow case occurs; and with an unassigned dividend the
  division is not reached, whatever the divisor.
\<close>

lemma division_not_reached:
  "evaluate_expression ''y / 0'' Map.empty = (Inl (NameError ''y''), Map.empty)
   \<and> evaluate_expression ''y / 5'' Map.empty = (Inl (NameError ''y''), Map.empty)"
  by (simp add: run_eval lexer_eval parser_eval)

lemma overflow_before_zero_division:
  "visit_expr (BinOp (Num (2 ^ 1024)) BDiv (BinOp (Num 0) BDiv (Num 1))) env
     = (Inl OverflowError, env)"
  by (simp add: float_eval)

lemma one_by_zero:
  "evaluate_expression ''1 / 0'' env = (Inl ZeroDivisionError, env)
   \<and> main_line ''BEGIN a := 1; b := a / 0; END.'' = (Inl ZeroDivisionError, [''a'' \<mapsto> PyInt 1])"
  by (simp add: run_eval lexer_eval parser_eval float_eval)

section \<open>Variables\<close>

text \<open>
  C4. Evaluating a variable whose name has no entry in the dictionary raises
  \<^verbatim>\<open>NameError\<close> carrying that name; evaluating one that has an entry returns the entry.
  After an assignment to a name the entry is the value just assigned, whatever was there
  before. In particular \<^verbatim>\<open>BEGIN x := y; END.\<close> on a fresh interpreter raises
  \<^verbatim>\<open>NameError\<close> for \<^verbatim>\<open>y\<close> and stores nothing.
\<close>

theorem variable_lookup:
  "(env name = None \<longrightarrow> visit_expr (Var name) env = (Inl (NameError name), env))
   \<and> (env name = Some v \<longrightarrow> visit_expr (Var name) env = (Inr v, env))
   \<and> (fst (visit_expr e env) = Inr v \<longrightarrow>
        visit_stmt (Assign name e) env = (Inr (), env(name \<mapsto> v))
        \<and> visit_expr (Var name) (env(name \<mapsto> v)) = (Inr v, env(name \<mapsto> v)))
   \<and> main_line ''BEGIN x := y; END.'' = (Inl (NameError ''y''), Map.empty)"
proof -
  have "visit_stmt (Assign name e) env = (Inr (), env(name \<mapsto> v))"
    if "fst (visit_expr e env) = Inr v"
    using that visit_expr_scope [of e env] by (cases "visit_expr e env") simp
  moreover have "main_line ''BEGIN x := y; END.'' = (Inl (NameError ''y''), Map.empty)"
    by (simp add: run_eval lexer_eval parser_eval)
  ultimately show ?thesis by simp
qed

theorem variable_lookup_witness:
  "(Map.empty ''y'' = None
      \<and> visit_expr (Var ''y'') Map.empty = (Inl (NameError ''y''), Map.empty))
   \<and> ([''x'' \<mapsto> PyInt 5] ''x'' = Some (PyInt 5)
      \<and> visit_expr (Var ''x'') [''x'' \<mapsto> PyInt 5] = (Inr (PyInt 5), [''x'' \<mapsto> PyInt 5]))
   \<and> (fst (visit_expr (Num 7) [''x'' \<mapsto> PyInt 5]) = Inr (PyInt 7)
      \<and> visit_stmt (Assign ''x'' (Num 7)) [''x'' \<mapsto> PyInt 5] = (Inr (), [''x'' \<mapsto> PyInt 7])
      \<and> visit_expr (Var ''x'') [''x'' \<mapsto> PyInt 7] = (Inr (PyInt 7), [''x'' \<mapsto> PyInt 7]))"
  using variable_lookup [of Map.empty "''y''" "PyInt 0" "Num 0"]
    variable_lookup [of "[''x'' \<mapsto> PyInt 5]" "''x''" "PyInt 5" "Num 5"]
    variable_lookup [of "[''x'' \<mapsto> PyInt 5]" "''x''" "PyInt 7" "Num 7"]
  by simp

section \<open>Associativity, precedence and unary operators\<close>

text \<open>
  The lexer and the parser on a chain of integer literals and binary operators of one
  precedence level, by induction on the chain.
\<close>

lemma advance_lexer_at: "advance (lexer_at T k) = lexer_at T (Suc k)"
  by (auto simp: advance_def lexer_at_def Let_def)

lemma lexer_at_char: "current_char (lexer_at (pre @ c # rest) (length pre)) = Some c"
  by (simp add: lexer_at_def)

lemma lexer_at_end: "current_char (lexer_at T (length T)) = None"
  by (simp add: lexer_at_def)

lemma get_next_token_end:
  "current_char l = None \<Longrightarrow> get_next_token l = Inr (Token EOF NoneVal, l)"
  by (simp add: get_next_token.simps [of l])

lemma get_next_token_bin:
  "current_char l = Some (bin_char op) \<Longrightarrow> get_next_token l = Inr (bin_token op, advance l)"
  by (cases op)
     (simp_all add: get_next_token.simps [of l] isalpha_def isspace_def isdigit_def
        isdecimal_def ord_def)

lemma bin_char_not_digit: "\<not> isdigit (bin_char op)"
  by (cases op) (simp_all add: isdigit_def isdecimal_def ord_def)

lemma decimal_class:
  assumes "isdecimal c"
  shows "isdigit c" "\<not> isalpha c" "\<not> isspace c" "c \<noteq> CHR '':''" "c \<noteq> CHR '';''"
    "c \<noteq> CHR ''.''"
  using assms by (auto simp: isdecimal_def isdigit_def isalpha_def isspace_def ord_def)

lemma integer_loop_step:
  "current_char l = Some d \<Longrightarrow> isdigit d \<Longrightarrow>
     integer_loop acc l = integer_loop (acc @ [d]) (advance l)"
  by (simp add: integer_loop.simps [of acc l])

lemma expr_loop_step:
  assumes "tok_type (current_token p) = tok_type (bin_token op)" and "additive op"
    and "eat (tok_type (bin_token op)) p = Inr p1" and "parser_term p1 = Inr (right, p2)"
  shows "expr_loop node p = expr_loop (BinOp node op right) p2"
  using assms by (cases op) (simp_all add: expr_loop.simps [of node p])

lemma term_loop_step:
  assumes "tok_type (current_token p) = tok_type (bin_token op)" and "\<not> additive op"
    and "eat (tok_type (bin_token op)) p = Inr p1" and "factor p1 = Inr (right, p2)"
  shows "term_loop node p = term_loop (BinOp node op right) p2"
  using assms by (cases op) (simp_all add: term_loop.simps [of node p])

lemma integer_loop_digits:
  assumes "list_all isdigit ds" and "rest = [] \<or> \<not> isdigit (hd rest)"
  shows "integer_loop acc (lexer_at (pre @ ds @ rest) (length pre))
    = (acc @ ds, lexer_at (pre @ ds @ rest) (length pre + length ds))"
  using assms(1)
proof (induction ds arbitrary: pre acc)
  case Nil
  show ?case
  proof (cases rest)
    case Nil
    then show ?thesis
      using lexer_at_end [of pre] by (simp add: integer_loop.simps [of _ "lexer_at pre (length pre)"])
  next
    case (Cons c cs)
    then have "\<not> isdigit c" using assms(2) by simp
    then show ?thesis
      using lexer_at_char [of pre c cs] Cons
      by (simp add: integer_loop.simps [of _ "lexer_at (pre @ c # cs) (length pre)"])
  qed
next
  case (Cons d ds)
  let ?T = "pre @ (d # ds) @ rest"
  have cc: "current_char (lexer_at ?T (length pre)) = Some d"
    using lexer_at_char [of pre d "ds @ rest"] by simp
  have d: "isdigit d" and ds: "list_all isdigit ds" using Cons.prems by simp_all
  have "integer_loop acc (lexer_at ?T (length pre))
      = integer_loop (acc @ [d]) (lexer_at ?T (Suc (length pre)))"
    using integer_loop_step [OF cc d] by (simp add: advance_lexer_at)
  also have "\<dots> = ((acc @ [d]) @ ds, lexer_at ?T (length (pre @ [d]) + length ds))"
    using Cons.IH [OF ds, of "acc @ [d]" "pre @ [d]"] by simp
  finally show ?case by simp
qed

lemma py_int_literal: "literal ds \<Longrightarrow> py_int ds = Inr (digits_value ds)"
  by (simp add: py_int_def literal_def digits_value_def)

lemma get_next_token_literal:
  assumes "literal ds" and "rest = [] \<or> \<not> isdigit (hd rest)"
  shows "get_next_token (lexer_at (pre @ ds @ rest) (length pre))
    = Inr (Token INTEGER (IntVal (digits_value ds)),
           lexer_at (pre @ ds @ rest) (length pre + length ds))"
proof -
  obtain d ds' where ds: "ds = d # ds'" using assms(1) by (cases ds) (auto simp: literal_def)
  have dec: "isdecimal d" and all: "list_all isdigit ds"
    using assms(1) ds by (auto simp: literal_def list_all_iff decimal_class(1))
  let ?l = "lexer_at (pre @ ds @ rest) (length pre)"
  have cc: "current_char ?l = Some d"
    using lexer_at_char [of pre d "ds' @ rest"] ds by simp
  have "integer ?l = Inr (digits_value ds, lexer_at (pre @ ds @ rest) (length pre + length ds))"
    using integer_loop_digits [OF all assms(2), of "[]" pre] py_int_literal [OF assms(1)]
    by (simp add: integer_def)
  then show ?thesis
    using cc decimal_class [OF dec] by (simp add: get_next_token.simps [of ?l])
qed

lemma chain_text_head: "chain_text ops = [] \<or> \<not> isdigit (hd (chain_text ops))"
  by (cases ops) (auto simp: bin_char_not_digit)

lemma next_after_operand:
  "get_next_token (lexer_at (pre @ chain_text ops) (length pre))
    = Inr (current_token (chain_state (pre @ chain_text ops) (length pre) ops),
           lexer (chain_state (pre @ chain_text ops) (length pre) ops))"
proof (cases ops)
  case Nil
  then show ?thesis using get_next_token_end [OF lexer_at_end [of pre]] by simp
next
  case (Cons x ops')
  obtain op ds where x: "x = (op, ds)" by (cases x)
  have "current_char (lexer_at (pre @ chain_text ops) (length pre)) = Some (bin_char op)"
    using lexer_at_char [of pre "bin_char op" "ds @ chain_text ops'"] Cons x by simp
  from get_next_token_bin [OF this] show ?thesis
    using Cons x by (simp add: advance_lexer_at)
qed

lemma factor_literal:
  "factor \<lparr>lexer = lexer_at (pre @ chain_text ops) (length pre),
           current_token = Token INTEGER (IntVal v)\<rparr>
    = Inr (Num v, chain_state (pre @ chain_text ops) (length pre) ops)"
  using next_after_operand [of pre ops]
  by (cases ops) (auto simp: factor.simps eat_def)

lemma eat_operator:
  assumes "literal ds"
  shows "eat (tok_type (bin_token op)) (chain_state (pre @ chain_text ((op, ds) # ops)) (length pre) ((op, ds) # ops))
    = Inr \<lparr>lexer = lexer_at ((pre @ bin_char op # ds) @ chain_text ops) (length (pre @ bin_char op # ds)),
           current_token = Token INTEGER (IntVal (digits_value ds))\<rparr>"
  using get_next_token_literal [OF assms chain_text_head [of ops], of "pre @ [bin_char op]"]
  by (simp add: eat_def)

lemma term_loop_stops:
  "list_all (\<lambda>(op, ds). additive op) ops \<Longrightarrow>
     term_loop node (chain_state T k ops) = Inr (node, chain_state T k ops)"
proof (cases ops)
  case Nil
  then show ?thesis by (simp add: term_loop.simps)
next
  case (Cons x ops')
  assume "list_all (\<lambda>(op, ds). additive op) ops"
  then show ?thesis using Cons by (cases x; cases "fst x") (auto simp: term_loop.simps)
qed

lemma expr_loop_stops:
  "list_all (\<lambda>(op, ds). \<not> additive op) ops \<Longrightarrow>
     expr_loop node (chain_state T k ops) = Inr (node, chain_state T k ops)"
proof (cases ops)
  case Nil
  then show ?thesis by (simp add: expr_loop.simps)
next
  case (Cons x ops')
  assume "list_all (\<lambda>(op, ds). \<not> additive op) ops"
  then show ?thesis using Cons by (cases x; cases "fst x") (auto simp: expr_loop.simps)
qed

lemma term_loop_chain:
  assumes "list_all (\<lambda>(op, ds). \<not> additive op \<and> literal ds) ops"
  shows "term_loop node (chain_state (pre @ chain_text ops) (length pre) ops)
    = Inr (chain_tree node ops,
        \<lparr>lexer = lexer_at (pre @ chain_text ops) (length (pre @ chain_text ops)),
         current_token = Token EOF NoneVal\<rparr>)"
  using assms
proof (induction ops arbitrary: pre node)
  case Nil
  show ?case by (simp add: term_loop.simps)
next
  case (Cons x ops)
  obtain op ds where x: "x = (op, ds)" by (cases x)
  have mul: "\<not> additive op" and lit: "literal ds"
    and rest: "list_all (\<lambda>(op, ds). \<not> additive op \<and> literal ds) ops"
    using Cons.prems x by simp_all
  let ?pre = "pre @ bin_char op # ds"
  let ?p = "chain_state (pre @ chain_text ((op, ds) # ops)) (length pre) ((op, ds) # ops)"
  let ?p1 = "\<lparr>lexer = lexer_at (?pre @ chain_text ops) (length ?pre),
           current_token = Token INTEGER (IntVal (digits_value ds))\<rparr>"
  let ?p2 = "chain_state (?pre @ chain_text ops) (length ?pre) ops"
  have e: "eat (tok_type (bin_token op)) ?p = Inr ?p1" by (rule eat_operator [OF lit])
  have f: "factor ?p1 = Inr (Num (digits_value ds), ?p2)" by (rule factor_literal)
  have "term_loop node ?p = term_loop (BinOp node op (Num (digits_value ds))) ?p2"
    by (rule term_loop_step [OF _ mul e f]) simp
  also have "\<dots> = Inr (chain_tree (BinOp node op (Num (digits_value ds))) ops,
        \<lparr>lexer = lexer_at (?pre @ chain_text ops) (length (?pre @ chain_text ops)),
         current_token = Token EOF NoneVal\<rparr>)"
    by (rule Cons.IH [OF rest])
  finally show ?case using x by simp
qed

lemma expr_loop_chain:
  assumes "list_all (\<lambda>(op, ds). additive op \<and> literal ds) ops"
  shows "expr_loop node (chain_state (pre @ chain_text ops) (length pre) ops)
    = Inr (chain_tree node ops,
        \<lparr>lexer = lexer_at (pre @ chain_text ops) (length (pre @ chain_text ops)),
         current_token = Token EOF NoneVal\<rparr>)"
  using assms
proof (induction ops arbitrary: pre node)
  case Nil
  show ?case by (simp add: expr_loop.simps)
next
  case (Cons x ops)
  obtain op ds where x: "x = (op, ds)" by (cases x)
  have add: "additive op" and lit: "literal ds"
    and rest: "list_all (\<lambda>(op, ds). additive op \<and> literal ds) ops"
    using Cons.prems x by simp_all
  have rest_add: "list_all (\<lambda>(op, ds). additive op) ops"
    using rest by (auto simp: list_all_iff)
  let ?pre = "pre @ bin_char op # ds"
  let ?p = "chain_state (pre @ chain_text ((op, ds) # ops)) (length pre) ((op, ds) # ops)"
  let ?p1 = "\<lparr>lexer = lexer_at (?pre @ chain_text ops) (length ?pre),
           current_token = Token INTEGER (IntVal (digits_value ds))\<rparr>"
  let ?p2 = "chain_state (?pre @ chain_text ops) (length ?pre) ops"
  have e: "eat (tok_type (bin_token op)) ?p = Inr ?p1" by (rule eat_operator [OF lit])
  have f: "factor ?p1 = Inr (Num (digits_value ds), ?p2)" by (rule factor_literal)
  have t: "parser_term ?p1 = Inr (Num (digits_value ds), ?p2)"
    using f term_loop_stops [OF rest_add] by (simp add: parser_term.simps)
  have "expr_loop node ?p = expr_loop (BinOp node op (Num (digits_value ds))) ?p2"
    by (rule expr_loop_step [OF _ add e t]) simp
  also have "\<dots> = Inr (chain_tree (BinOp node op (Num (digits_value ds))) ops,
        \<lparr>lexer = lexer_at (?pre @ chain_text ops) (length (?pre @ chain_text ops)),
         current_token = Token EOF NoneVal\<rparr>)"
    by (rule Cons.IH [OF rest])
  finally show ?case using x by simp
qed

lemma parser_literal:
  assumes "literal d0"
  shows "Lexer (d0 @ chain_text ops) = Inr (lexer_at (d0 @ chain_text ops) 0)
    \<and> Parser (lexer_at (d0 @ chain_text ops) 0)
      = Inr \<lparr>lexer = lexer_at (d0 @ chain_text ops) (length d0),
           current_token = Token INTEGER (IntVal (digits_value d0))\<rparr>"
proof -
  have "d0 \<noteq> []" using assms by (simp add: literal_def)
  then have "Lexer (d0 @ chain_text ops) = Inr (lexer_at (d0 @ chain_text ops) 0)"
    by (simp add: Lexer_def lexer_at_def)
  moreover have "get_next_token (lexer_at ([] @ d0 @ chain_text ops) (length ([] :: string)))
    = Inr (Token INTEGER (IntVal (digits_value d0)),
        lexer_at ([] @ d0 @ chain_text ops) (length ([] :: string) + length d0))"
    by (rule get_next_token_literal [OF assms chain_text_head])
  ultimately show ?thesis by (simp add: Parser_def)
qed

lemma parse_chain:
  assumes "literal d0"
    and "list_all (\<lambda>(op, ds). additive op \<and> literal ds) ops
       \<or> list_all (\<lambda>(op, ds). \<not> additive op \<and> literal ds) ops"
  shows "parse_expression (d0 @ chain_text ops)
    = Inr (chain_tree (Num (digits_value d0)) ops, EOF)"
proof -
  let ?T = "d0 @ chain_text ops"
  let ?p = "\<lparr>lexer = lexer_at ?T (length d0),
           current_token = Token INTEGER (IntVal (digits_value d0))\<rparr>"
  let ?q = "\<lparr>lexer = lexer_at ?T (length ?T), current_token = Token EOF NoneVal\<rparr>"
  note start = parser_literal [OF assms(1), of ops]
  have f: "factor ?p = Inr (Num (digits_value d0), chain_state ?T (length d0) ops)"
    by (rule factor_literal)
  have "expr ?p = Inr (chain_tree (Num (digits_value d0)) ops, ?q)"
    using assms(2)
  proof
    assume a: "list_all (\<lambda>(op, ds). additive op \<and> literal ds) ops"
    then have "list_all (\<lambda>(op, ds). additive op) ops" by (auto simp: list_all_iff)
    then show ?thesis
      using f term_loop_stops [of ops] expr_loop_chain [OF a, of _ d0]
      by (simp add: expr.simps parser_term.simps)
  next
    assume m: "list_all (\<lambda>(op, ds). \<not> additive op \<and> literal ds) ops"
    have "expr_loop (chain_tree (Num (digits_value d0)) ops) (chain_state ?T (length ?T) []) = Inr (chain_tree (Num (digits_value d0)) ops, chain_state ?T (length ?T) [])"
      by (rule expr_loop_stops) simp
    then show ?thesis
      using f term_loop_chain [OF m, of _ d0]
      by (simp add: expr.simps parser_term.simps)
  qed
  then show ?thesis using start by (simp add: parse_expression_def)
qed

lemma visit_chain:
  "visit_expr (chain_tree node ops) env
    = (case fst (visit_expr node env) of Inl e \<Rightarrow> Inl e | Inr a \<Rightarrow> chain_value a ops, env)"
proof (induction ops arbitrary: node)
  case Nil
  show ?case using visit_expr_scope [of node env]
    by (cases "visit_expr node env") (auto split: sum.splits)
next
  case (Cons x ops)
  obtain op ds where x: "x = (op, ds)" by (cases x)
  obtain r where r: "visit_expr node env = (r, env)"
    using visit_expr_scope [of node env] by (cases "visit_expr node env") simp
  show ?case
    using Cons.IH [of "BinOp node op (Num (digits_value ds))"] r x
    by (cases r; cases op) (simp_all split: sum.splits)
qed

text \<open>
  C5. The binary operators are parsed to the left. One repetition of the loop of
  \<^verbatim>\<open>expr\<close> eats a \<^verbatim>\<open>+\<close> or \<^verbatim>\<open>-\<close>, parses one \<^verbatim>\<open>term\<close>, makes the node built so far the left
  child and that term the right child of a new \<^verbatim>\<open>BinOp\<close>, and goes on from where the term
  ended; the loop of \<^verbatim>\<open>term\<close> does the same with \<^verbatim>\<open>*\<close>, \<^verbatim>\<open>/\<close> and one \<^verbatim>\<open>factor\<close>. Hence every
  chain of integer literals joined by operators of one level, of any length and in any
  mix, is parsed into the tree nested to the left and evaluated from left to right. So
  \<^verbatim>\<open>7 - 3 - 1\<close> is 3, not 5, \<^verbatim>\<open>7 - 3 + 1\<close> is 5, not 3, and \<^verbatim>\<open>8 / 4 * 2\<close> is 4, not 1.
\<close>

theorem left_associative:
  "(tok_type (current_token p) = tok_type (bin_token op) \<longrightarrow> additive op \<longrightarrow>
      eat (tok_type (bin_token op)) p = Inr p1 \<longrightarrow> parser_term p1 = Inr (right, p2) \<longrightarrow>
      expr_loop node p = expr_loop (BinOp node op right) p2)
   \<and> (tok_type (current_token p) = tok_type (bin_token op) \<longrightarrow> \<not> additive op \<longrightarrow>
      eat (tok_type (bin_token op)) p = Inr p1 \<longrightarrow> factor p1 = Inr (right, p2) \<longrightarrow>
      term_loop node p = term_loop (BinOp node op right) p2)
   \<and> (literal d0 \<longrightarrow>
      list_all (\<lambda>(op, ds). additive op \<and> literal ds) ops
        \<or> list_all (\<lambda>(op, ds). \<not> additive op \<and> literal ds) ops \<longrightarrow>
      parse_expression (d0 @ chain_text ops) = Inr (chain_tree (Num (digits_value d0)) ops, EOF)
      \<and> evaluate_expression (d0 @ chain_text ops) env
          = (chain_value (PyInt (digits_value d0)) ops, env))
   \<and> parse_expression ''7 - 3 - 1'' = Inr (BinOp (BinOp (Num 7) BMinus (Num 3)) BMinus (Num 1), EOF)
   \<and> evaluate_expression ''7 - 3 - 1'' env = (Inr (PyInt 3), env)
   \<and> parse_expression ''7 - 3 + 1'' = Inr (BinOp (BinOp (Num 7) BMinus (Num 3)) BPlus (Num 1), EOF)
   \<and> evaluate_expression ''7 - 3 + 1'' env = (Inr (PyInt 5), env)
   \<and> parse_expression ''7 + 3 + 1'' = Inr (BinOp (BinOp (Num 7) BPlus (Num 3)) BPlus (Num 1), EOF)
   \<and> parse_expression ''2 * 3 * 4'' = Inr (BinOp (BinOp (Num 2) BMul (Num 3)) BMul (Num 4), EOF)
   \<and> parse_expression ''8 / 4 / 2'' = Inr (BinOp (BinOp (Num 8) BDiv (Num 4)) BDiv (Num 2), EOF)
   \<and> evaluate_expression ''8 / 4 / 2'' env = (Inr (PyFloat (Finite False 1 0)), env)
   \<and> parse_expression ''8 / 4 * 2'' = Inr (BinOp (BinOp (Num 8) BDiv (Num 4)) BMul (Num 2), EOF)
   \<and> evaluate_expression ''8 / 4 * 2'' env = (Inr (PyFloat (Finite False 1 2)), env)
   \<and> main_line ''BEGIN x := 7 - 3 - 1; y := 7 - 3 + 1; END.''
       = (Inr (), [''x'' \<mapsto> PyInt 3, ''y'' \<mapsto> PyInt 5])"
proof -
  have examples: "parse_expression ''7 - 3 - 1'' = Inr (BinOp (BinOp (Num 7) BMinus (Num 3)) BMinus (Num 1), EOF)
   \<and> evaluate_expression ''7 - 3 - 1'' env = (Inr (PyInt 3), env)
   \<and> parse_expression ''7 - 3 + 1'' = Inr (BinOp (BinOp (Num 7) BMinus (Num 3)) BPlus (Num 1), EOF)
   \<and> evaluate_expression ''7 - 3 + 1'' env = (Inr (PyInt 5), env)
   \<and> parse_expression ''7 + 3 + 1'' = Inr (BinOp (BinOp (Num 7) BPlus (Num 3)) BPlus (Num 1), EOF)
   \<and> parse_expression ''2 * 3 * 4'' = Inr (BinOp (BinOp (Num 2) BMul (Num 3)) BMul (Num 4), EOF)
   \<and> parse_expression ''8 / 4 / 2'' = Inr (BinOp (BinOp (Num 8) BDiv (Num 4)) BDiv (Num 2), EOF)
   \<and> evaluate_expression ''8 / 4 / 2'' env = (Inr (PyFloat (Finite False 1 0)), env)
   \<and> parse_expression ''8 / 4 * 2'' = Inr (BinOp (BinOp (Num 8) BDiv (Num 4)) BMul (Num 2), EOF)
   \<and> evaluate_expression ''8 / 4 * 2'' env = (Inr (PyFloat (Finite False 1 2)), env)
   \<and> main_line ''BEGIN x := 7 - 3 - 1; y := 7 - 3 + 1; END.''
       = (Inr (), [''x'' \<mapsto> PyInt 3, ''y'' \<mapsto> PyInt 5])"
    by (simp add: run_eval lexer_eval parser_eval float_eval)
  have chain: "parse_expression (d0 @ chain_text ops) = Inr (chain_tree (Num (digits_value d0)) ops, EOF)
      \<and> evaluate_expression (d0 @ chain_text ops) env
          = (chain_value (PyInt (digits_value d0)) ops, env)"
    if "literal d0" and "list_all (\<lambda>(op, ds). additive op \<and> literal ds) ops
        \<or> list_all (\<lambda>(op, ds). \<not> additive op \<and> literal ds) ops"
    using parse_chain [OF that] visit_chain [of "Num (digits_value d0)" ops env]
    by (simp add: evaluate_expression_def)
  show ?thesis
    using examples chain expr_loop_step [of p op p1 right p2 node]
      term_loop_step [of p op p1 right p2 node]
    by blast
qed

theorem left_associative_witness:
  "(tok_type (current_token
        \<lparr>lexer = \<lparr>src_text = ''7 - 3 - 1'', pos = 3, current_char = Some CHR '' ''\<rparr>,
         current_token = Token MINUS (StrVal ''-'')\<rparr>) = tok_type (bin_token BMinus)
     \<and> additive BMinus
     \<and> eat (tok_type (bin_token BMinus))
        \<lparr>lexer = \<lparr>src_text = ''7 - 3 - 1'', pos = 3, current_char = Some CHR '' ''\<rparr>,
         current_token = Token MINUS (StrVal ''-'')\<rparr>
       = Inr \<lparr>lexer = \<lparr>src_text = ''7 - 3 - 1'', pos = 5, current_char = Some CHR '' ''\<rparr>,
         current_token = Token INTEGER (IntVal 3)\<rparr>
     \<and> parser_term
        \<lparr>lexer = \<lparr>src_text = ''7 - 3 - 1'', pos = 5, current_char = Some CHR '' ''\<rparr>,
         current_token = Token INTEGER (IntVal 3)\<rparr>
       = Inr (Num 3,
          \<lparr>lexer = \<lparr>src_text = ''7 - 3 - 1'', pos = 7, current_char = Some CHR '' ''\<rparr>,
           current_token = Token MINUS (StrVal ''-'')\<rparr>)
     \<and> expr_loop (Num 7)
        \<lparr>lexer = \<lparr>src_text = ''7 - 3 - 1'', pos = 3, current_char = Some CHR '' ''\<rparr>,
         current_token = Token MINUS (StrVal ''-'')\<rparr>
       = expr_loop (BinOp (Num 7) BMinus (Num 3))
          \<lparr>lexer = \<lparr>src_text = ''7 - 3 - 1'', pos = 7, current_char = Some CHR '' ''\<rparr>,
           current_token = Token MINUS (StrVal ''-'')\<rparr>)
   \<and> (tok_type (current_token
        \<lparr>lexer = \<lparr>src_text = ''8 / 4 * 2'', pos = 3, current_char = Some CHR '' ''\<rparr>,
         current_token = Token DIV (StrVal ''/'')\<rparr>) = tok_type (bin_token BDiv)
     \<and> \<not> additive BDiv
     \<and> eat (tok_type (bin_token BDiv))
        \<lparr>lexer = \<lparr>src_text = ''8 / 4 * 2'', pos = 3, current_char = Some CHR '' ''\<rparr>,
         current_token = Token DIV (StrVal ''/'')\<rparr>
       = Inr \<lparr>lexer = \<lparr>src_text = ''8 / 4 * 2'', pos = 5, current_char = Some CHR '' ''\<rparr>,
         current_token = Token INTEGER (IntVal 4)\<rparr>
     \<and> factor
        \<lparr>lexer = \<lparr>src_text = ''8 / 4 * 2'', pos = 5, current_char = Some CHR '' ''\<rparr>,
         current_token = Token INTEGER (IntVal 4)\<rparr>
       = Inr (Num 4,
          \<lparr>lexer = \<lparr>src_text = ''8 / 4 * 2'', pos = 7, current_char = Some CHR '' ''\<rparr>,
           current_token = Token MUL (StrVal ''*'')\<rparr>)
     \<and> term_loop (Num 8)
        \<lparr>lexer = \<lparr>src_text = ''8 / 4 * 2'', pos = 3, current_char = Some CHR '' ''\<rparr>,
         current_token = Token DIV (StrVal ''/'')\<rparr>
       = term_loop (BinOp (Num 8) BDiv (Num 4))
          \<lparr>lexer = \<lparr>src_text = ''8 / 4 * 2'', pos = 7, current_char = Some CHR '' ''\<rparr>,
           current_token = Token MUL (StrVal ''*'')\<rparr>)
   \<and> (literal ''7''
     \<and> list_all (\<lambda>(op, ds). additive op \<and> literal ds) [(BMinus, ''3''), (BPlus, ''1'')]
     \<and> parse_expression ''7-3+1''
        = Inr (BinOp (BinOp (Num 7) BMinus (Num 3)) BPlus (Num 1), EOF)
     \<and> evaluate_expression ''7-3+1'' Map.empty = (Inr (PyInt 5), Map.empty))
   \<and> (literal ''8''
     \<and> list_all (\<lambda>(op, ds). \<not> additive op \<and> literal ds) [(BDiv, ''4''), (BMul, ''2'')]
     \<and> parse_expression ''8/4*2''
        = Inr (BinOp (BinOp (Num 8) BDiv (Num 4)) BMul (Num 2), EOF))"
proof -
  let ?p = "\<lparr>lexer = \<lparr>src_text = ''7 - 3 - 1'', pos = 3, current_char = Some CHR '' ''\<rparr>,
         current_token = Token MINUS (StrVal ''-'')\<rparr>"
  let ?p1 = "\<lparr>lexer = \<lparr>src_text = ''7 - 3 - 1'', pos = 5, current_char = Some CHR '' ''\<rparr>,
         current_token = Token INTEGER (IntVal 3)\<rparr>"
  let ?p2 = "\<lparr>lexer = \<lparr>src_text = ''7 - 3 - 1'', pos = 7, current_char = Some CHR '' ''\<rparr>,
           current_token = Token MINUS (StrVal ''-'')\<rparr>"
  let ?q = "\<lparr>lexer = \<lparr>src_text = ''8 / 4 * 2'', pos = 3, current_char = Some CHR '' ''\<rparr>,
         current_token = Token DIV (StrVal ''/'')\<rparr>"
  let ?q1 = "\<lparr>lexer = \<lparr>src_text = ''8 / 4 * 2'', pos = 5, current_char = Some CHR '' ''\<rparr>,
         current_token = Token INTEGER (IntVal 4)\<rparr>"
  let ?q2 = "\<lparr>lexer = \<lparr>src_text = ''8 / 4 * 2'', pos = 7, current_char = Some CHR '' ''\<rparr>,
           current_token = Token MUL (StrVal ''*'')\<rparr>"
  have a1: "tok_type (current_token ?p) = tok_type (bin_token BMinus)" by simp
  have a2: "additive BMinus" by simp
  have a3: "eat (tok_type (bin_token BMinus)) ?p = Inr ?p1" by (simp add: eat_def lexer_eval)
  have a4: "parser_term ?p1 = Inr (Num 3, ?p2)" by (simp add: parser_eval lexer_eval)
  have b1: "tok_type (current_token ?q) = tok_type (bin_token BDiv)" by simp
  have b2: "\<not> additive BDiv" by simp
  have b3: "eat (tok_type (bin_token BDiv)) ?q = Inr ?q1" by (simp add: eat_def lexer_eval)
  have b4: "factor ?q1 = Inr (Num 4, ?q2)" by (simp add: parser_eval lexer_eval)
  have c1: "literal ''7''" and d1: "literal ''8''"
    by (simp_all add: literal_def isdecimal_def ord_def)
  have c2: "list_all (\<lambda>(op, ds). additive op \<and> literal ds) [(BMinus, ''3''), (BPlus, ''1'')]"
    by (simp add: literal_def isdecimal_def ord_def)
  have d2: "list_all (\<lambda>(op, ds). \<not> additive op \<and> literal ds) [(BDiv, ''4''), (BMul, ''2'')]"
    by (simp add: literal_def isdecimal_def ord_def)
  have w1: "expr_loop (Num 7) ?p = expr_loop (BinOp (Num 7) BMinus (Num 3)) ?p2"
    using left_associative [THEN conjunct1, rule_format, OF a1 a2 a3 a4] .
  have w2: "term_loop (Num 8) ?q = term_loop (BinOp (Num 8) BDiv (Num 4)) ?q2"
    using left_associative [THEN conjunct2, THEN conjunct1, rule_format, OF b1 b2 b3 b4] .
  have w3: "parse_expression (''7'' @ chain_text [(BMinus, ''3''), (BPlus, ''1'')])
      = Inr (chain_tree (Num (digits_value ''7'')) [(BMinus, ''3''), (BPlus, ''1'')], EOF)
    \<and> evaluate_expression (''7'' @ chain_text [(BMinus, ''3''), (BPlus, ''1'')]) Map.empty
      = (chain_value (PyInt (digits_value ''7'')) [(BMinus, ''3''), (BPlus, ''1'')], Map.empty)"
    using left_associative [THEN conjunct2, THEN conjunct2, THEN conjunct1, rule_format,
        OF c1 disjI1 [OF c2]] .
  have w4: "parse_expression (''8'' @ chain_text [(BDiv, ''4''), (BMul, ''2'')])
      = Inr (chain_tree (Num (digits_value ''8'')) [(BDiv, ''4''), (BMul, ''2'')], EOF)"
    using left_associative [THEN conjunct2, THEN conjunct2, THEN conjunct1, rule_format,
        OF d1 disjI2 [OF d2], THEN conjunct1] .
  have w3': "parse_expression ''7-3+1''
        = Inr (BinOp (BinOp (Num 7) BMinus (Num 3)) BPlus (Num 1), EOF)
     \<and> evaluate_expression ''7-3+1'' Map.empty = (Inr (PyInt 5), Map.empty)"
    using w3 by (simp add: digits_value_def ord_def)
  have w4': "parse_expression ''8/4*2''
        = Inr (BinOp (BinOp (Num 8) BDiv (Num 4)) BMul (Num 2), EOF)"
    using w4 by (simp add: digits_value_def ord_def)
  show ?thesis
    using a1 a2 a3 a4 w1 b1 b2 b3 b4 w2 c1 c2 w3' d1 d2 w4' by blast
qed

text \<open>
  C6. \<^verbatim>\<open>*\<close> and \<^verbatim>\<open>/\<close> bind tighter than \<^verbatim>\<open>+\<close> and \<^verbatim>\<open>-\<close>, and parentheses override
  this: \<^verbatim>\<open>2 + 3 * 4\<close> is 14 and \<^verbatim>\<open>(2 + 3) * 4\<close> is 20.
\<close>

theorem precedence_and_parentheses:
  "parse_expression ''2 + 3 * 4'' = Inr (BinOp (Num 2) BPlus (BinOp (Num 3) BMul (Num 4)), EOF)
   \<and> evaluate_expression ''2 + 3 * 4'' env = (Inr (PyInt 14), env)
   \<and> parse_expression ''(2 + 3) * 4'' = Inr (BinOp (BinOp (Num 2) BPlus (Num 3)) BMul (Num 4), EOF)
   \<and> evaluate_expression ''(2 + 3) * 4'' env = (Inr (PyInt 20), env)
   \<and> parse_expression ''8 - 6 / 2'' = Inr (BinOp (Num 8) BMinus (BinOp (Num 6) BDiv (Num 2)), EOF)
   \<and> parse_expression ''(8 - 6) / 2'' = Inr (BinOp (BinOp (Num 8) BMinus (Num 6)) BDiv (Num 2), EOF)
   \<and> main_line ''BEGIN x := 2 + 3 * 4; y := (2 + 3) * 4; END.''
       = (Inr (), [''x'' \<mapsto> PyInt 14, ''y'' \<mapsto> PyInt 20])"
  by (simp add: run_eval lexer_eval parser_eval float_eval)

text \<open>
  The parser on a string of unary operators followed by \<^verbatim>\<open>3\<close>, by induction on the
  number of operators.
\<close>

lemma sign_char_class [simp]:
  "\<not> isalpha (sign_char op)" "\<not> isspace (sign_char op)" "\<not> isdigit (sign_char op)"
  "sign_char op \<noteq> CHR '':''" "sign_char op \<noteq> CHR '';''" "sign_char op \<noteq> CHR ''.''"
  by (cases op; simp add: isalpha_def isspace_def isdigit_def isdecimal_def ord_def)+

lemma get_next_token_sign:
  assumes "current_char l = Some (sign_char op)"
  shows "get_next_token l = Inr (sign_token op, advance l)"
  using assms
  by (cases op)
     (simp_all add: get_next_token.simps [of l] isalpha_def isspace_def isdigit_def
        isdecimal_def ord_def)

lemma get_next_token_three:
  assumes "src_text l = pre @ ''3''" and "pos l = length pre" and "current_char l = Some CHR ''3''"
  shows "get_next_token l = Inr (Token INTEGER (IntVal 3),
           l\<lparr>pos := Suc (length pre), current_char := None\<rparr>)"
proof -
  have a: "advance l = l\<lparr>pos := Suc (length pre), current_char := None\<rparr>"
    using assms by (simp add: advance_def Let_def)
  have "integer_loop [] l = (''3'', l\<lparr>pos := Suc (length pre), current_char := None\<rparr>)"
    using assms a
    by (simp add: integer_loop.simps [of "[]" l] integer_loop.simps [of "''3''"]
        isdigit_def isdecimal_def ord_def)
  then show ?thesis
    using assms
    by (simp add: get_next_token.simps [of l] integer_def py_int_def isdigit_def isdecimal_def
        isalpha_def isspace_def ord_def)
qed

lemma factor_unary:
  assumes "current_token p = sign_token op"
    and "eat (tok_type (sign_token op)) p = Inr p1"
    and "factor p1 = Inr (node, p2)"
  shows "factor p = Inr (UnaryOp op node, p2)"
  using assms by (cases op) (simp_all add: factor.simps [of p])

lemma factor_signs:
  "factor \<lparr>lexer = \<lparr>src_text = pre @ map sign_char ops @ ''3'', pos = Suc (length pre),
              current_char = (case ops of [] \<Rightarrow> None
                 | op # rest \<Rightarrow> Some ((map sign_char rest @ ''3'') ! 0))\<rparr>,
            current_token = (case ops of [] \<Rightarrow> Token INTEGER (IntVal 3)
                 | op # rest \<Rightarrow> sign_token op)\<rparr>
   = Inr (foldr UnaryOp ops (Num 3),
        \<lparr>lexer = \<lparr>src_text = pre @ map sign_char ops @ ''3'',
             pos = Suc (length pre + length ops), current_char = None\<rparr>,
         current_token = Token EOF NoneVal\<rparr>)"
proof (induction ops arbitrary: pre)
  case Nil
  show ?case
    by (simp add: factor.simps eat_def get_next_token.simps)
next
  case (Cons op rest)
  let ?T = "pre @ map sign_char (op # rest) @ ''3''"
  let ?l = "\<lparr>src_text = ?T, pos = Suc (length pre),
              current_char = Some ((map sign_char rest @ ''3'') ! 0)\<rparr>"
  let ?p = "\<lparr>lexer = ?l, current_token = sign_token op\<rparr>"
  let ?p1 = "\<lparr>lexer = \<lparr>src_text = (pre @ [sign_char op]) @ map sign_char rest @ ''3'',
                pos = Suc (length (pre @ [sign_char op])),
                current_char = (case rest of [] \<Rightarrow> None
                   | r # rest' \<Rightarrow> Some ((map sign_char rest' @ ''3'') ! 0))\<rparr>,
              current_token = (case rest of [] \<Rightarrow> Token INTEGER (IntVal 3)
                   | r # rest' \<Rightarrow> sign_token r)\<rparr>"
  have next_tok: "get_next_token ?l = Inr (current_token ?p1, lexer ?p1)"
  proof (cases rest)
    case Nil
    have "get_next_token ?l = Inr (Token INTEGER (IntVal 3),
        ?l\<lparr>pos := Suc (length (pre @ [sign_char op])), current_char := None\<rparr>)"
      by (rule get_next_token_three) (simp_all add: Nil)
    then show ?thesis by (simp add: Nil)
  next
    case (Cons r rest')
    have "get_next_token ?l = Inr (sign_token r, advance ?l)"
      by (rule get_next_token_sign) (simp add: Cons)
    moreover have "advance ?l = lexer ?p1"
      by (simp add: advance_def Let_def Cons nth_append)
    ultimately show ?thesis by (simp add: Cons)
  qed
  have eat_sign: "eat (tok_type (sign_token op)) ?p = Inr ?p1"
    using next_tok by (simp add: eat_def)
  have rec: "factor ?p1 = Inr (foldr UnaryOp rest (Num 3),
        \<lparr>lexer = \<lparr>src_text = ?T, pos = Suc (length pre + length (op # rest)),
             current_char = None\<rparr>,
         current_token = Token EOF NoneVal\<rparr>)"
    using Cons.IH [of "pre @ [sign_char op]"] by simp
  have "factor ?p = Inr (UnaryOp op (foldr UnaryOp rest (Num 3)),
        \<lparr>lexer = \<lparr>src_text = ?T, pos = Suc (length pre + length (op # rest)),
             current_char = None\<rparr>,
         current_token = Token EOF NoneVal\<rparr>)"
    by (rule factor_unary [OF _ eat_sign rec]) simp
  then show ?case by simp
qed

lemma parser_signs:
  "Lexer (map sign_char ops @ ''3'') = Inr lx \<Longrightarrow>
   Parser lx = Inr \<lparr>lexer = \<lparr>src_text = [] @ map sign_char ops @ ''3'', pos = Suc (length ([] :: string)),
              current_char = (case ops of [] \<Rightarrow> None
                 | op # rest \<Rightarrow> Some ((map sign_char rest @ ''3'') ! 0))\<rparr>,
            current_token = (case ops of [] \<Rightarrow> Token INTEGER (IntVal 3)
                 | op # rest \<Rightarrow> sign_token op)\<rparr>"
proof (cases ops)
  case Nil
  assume "Lexer (map sign_char ops @ ''3'') = Inr lx"
  then show ?thesis using Nil by (auto simp: lexer_eval Parser_def)
next
  case (Cons op rest)
  assume "Lexer (map sign_char ops @ ''3'') = Inr lx"
  then have lx: "lx = \<lparr>src_text = sign_char op # map sign_char rest @ ''3'', pos = 0,
      current_char = Some (sign_char op)\<rparr>"
    using Cons by (auto simp: Lexer_def)
  have "get_next_token lx = Inr (sign_token op, advance lx)"
    by (rule get_next_token_sign) (simp add: lx)
  moreover have "advance lx = \<lparr>src_text = sign_char op # map sign_char rest @ ''3'', pos = Suc 0,
      current_char = Some ((map sign_char rest @ ''3'') ! 0)\<rparr>"
    by (simp add: lx advance_def Let_def)
  ultimately show ?thesis using Cons by (simp add: Parser_def)
qed

lemma parse_expression_signs:
  "parse_expression (map sign_char ops @ ''3'') = Inr (foldr UnaryOp ops (Num 3), EOF)"
proof -
  obtain lx where lx: "Lexer (map sign_char ops @ ''3'') = Inr lx"
    by (simp add: Lexer_def)
  note p = parser_signs [OF lx]
  note f = factor_signs [of "[]" ops]
  show ?thesis
    using lx p f
    by (simp add: parse_expression_def expr.simps parser_term.simps term_loop.simps
        expr_loop.simps)
qed

lemma visit_signs:
  "visit_expr (foldr UnaryOp ops (Num n)) env = (Inr (PyInt (foldr apply_sign ops n)), env)"
proof (induction ops)
  case Nil
  show ?case by simp
next
  case (Cons op rest)
  then show ?case by (cases op) simp_all
qed

text \<open>
  A sign before any factor, any number of times, and what the visitor does with it.
\<close>

lemma factor_sign_step:
  assumes "tok_type (current_token p) = tok_type (sign_token op)"
    and "eat (tok_type (sign_token op)) p = Inr p1"
    and "factor p1 = Inr (node, p2)"
  shows "factor p = Inr (UnaryOp op node, p2)"
  using assms by (cases op) (simp_all add: factor.simps [of p])

lemma factor_sign_stack:
  "eats_signs ops p q \<Longrightarrow> factor q = Inr (node, q') \<Longrightarrow>
     factor p = Inr (foldr UnaryOp ops node, q')"
proof (induction rule: eats_signs.induct)
  case (none p)
  then show ?case by simp
next
  case (sign p op p1 ops q)
  then show ?case using factor_sign_step [of p op p1 "foldr UnaryOp ops node" q'] by simp
qed

lemma visit_unary:
  assumes "fst (visit_expr operand env) = Inr a"
  shows "visit_expr (UnaryOp op operand) env = (Inr (apply_unary op a), env)"
proof -
  have "visit_expr operand env = (Inr a, env)"
    using assms visit_expr_scope [of operand env] by (cases "visit_expr operand env") simp
  then show ?thesis by (cases op) simp_all
qed

lemma visit_unary_stack:
  assumes "fst (visit_expr operand env) = Inr a"
  shows "visit_expr (foldr UnaryOp ops operand) env = (Inr (foldr apply_unary ops a), env)"
proof (induction ops)
  case Nil
  show ?case using assms visit_expr_scope [of operand env]
    by (cases "visit_expr operand env") simp
next
  case (Cons op ops)
  then have "fst (visit_expr (foldr UnaryOp ops operand) env) = Inr (foldr apply_unary ops a)"
    by simp
  from visit_unary [OF this, of op] show ?case by simp
qed

lemma numeric_value_neg: "numeric_value (py_neg a) = map_option uminus (numeric_value a)"
proof (cases a)
  case (PyInt i)
  then show ?thesis by simp
next
  case (PyFloat x)
  then show ?thesis by (cases x) simp_all
qed

text \<open>
  C7. Unary operators stack to any depth, before any operand. Whenever the parser
  eats a run of \<^verbatim>\<open>+\<close> and \<^verbatim>\<open>-\<close> tokens and \<^verbatim>\<open>factor\<close> parses what follows, \<^verbatim>\<open>factor\<close> on the
  whole returns that node inside one \<^verbatim>\<open>UnaryOp\<close> per sign, in order. Visiting such a stack
  around an operand that evaluates applies the operators from the inside out: \<^verbatim>\<open>+\<close>
  keeps the value and \<^verbatim>\<open>-\<close> negates it, integer or float. In particular a string of any
  signs followed by \<^verbatim>\<open>3\<close> is parsed into as many nested nodes around \<^verbatim>\<open>Num 3\<close> and
  evaluates to 3 negated once for each \<^verbatim>\<open>-\<close>; \<^verbatim>\<open>- - 3\<close> is 3, \<^verbatim>\<open>- 3 + - - + 2\<close> is -1 and
  \<^verbatim>\<open>- (7 / 2)\<close> is -3.5.
\<close>

theorem unary_operators:
  "(eats_signs ops p q \<longrightarrow> factor q = Inr (node, q') \<longrightarrow>
      factor p = Inr (foldr UnaryOp ops node, q'))
   \<and> (fst (visit_expr operand env) = Inr a \<longrightarrow>
      visit_expr (foldr UnaryOp ops operand) env = (Inr (foldr apply_unary ops a), env))
   \<and> numeric_value (py_neg a) = map_option uminus (numeric_value a)
   \<and> numeric_value (py_pos a) = numeric_value a
   \<and> parse_expression (map sign_char ops @ ''3'') = Inr (foldr UnaryOp ops (Num 3), EOF)
   \<and> visit_expr (foldr UnaryOp ops (Num n)) env = (Inr (PyInt (foldr apply_sign ops n)), env)
   \<and> evaluate_expression (map sign_char ops @ ''3'') env
       = (Inr (PyInt (foldr apply_sign ops 3)), env)
   \<and> parse_expression ''- - 3'' = Inr (UnaryOp UMinus (UnaryOp UMinus (Num 3)), EOF)
   \<and> evaluate_expression ''- - 3'' env = (Inr (PyInt 3), env)
   \<and> parse_expression ''- 3 + - - + 2'' =
       Inr (BinOp (UnaryOp UMinus (Num 3)) BPlus
             (UnaryOp UMinus (UnaryOp UMinus (UnaryOp UPlus (Num 2)))), EOF)
   \<and> evaluate_expression ''- 3 + - - + 2'' env = (Inr (PyInt (- 1)), env)
   \<and> main_line ''BEGIN x := - - 3; y := - 3 + - - + 2; END.''
       = (Inr (), [''x'' \<mapsto> PyInt 3, ''y'' \<mapsto> PyInt (- 1)])
   \<and> evaluate_expression ''- (7 / 2)'' env = (Inr (PyFloat (Finite True 7 (- 1))), env)
   \<and> numeric_value (PyFloat (Finite True 7 (- 1))) = Some (- (7 / 2))
   \<and> parse_expression ''2 * - - (1 + 2)'' =
       Inr (BinOp (Num 2) BMul
             (UnaryOp UMinus (UnaryOp UMinus (BinOp (Num 1) BPlus (Num 2)))), EOF)
   \<and> main_line ''BEGIN a := 5; b := - a; c := - - + a; d := - (a / 2); END.''
       = (Inr (), [''a'' \<mapsto> PyInt 5, ''b'' \<mapsto> PyInt (- 5), ''c'' \<mapsto> PyInt 5,
            ''d'' \<mapsto> PyFloat (Finite True 5 (- 1))])"
proof -
  have examples: "parse_expression ''- - 3'' = Inr (UnaryOp UMinus (UnaryOp UMinus (Num 3)), EOF)
   \<and> evaluate_expression ''- - 3'' env = (Inr (PyInt 3), env)
   \<and> parse_expression ''- 3 + - - + 2'' =
       Inr (BinOp (UnaryOp UMinus (Num 3)) BPlus
             (UnaryOp UMinus (UnaryOp UMinus (UnaryOp UPlus (Num 2)))), EOF)
   \<and> evaluate_expression ''- 3 + - - + 2'' env = (Inr (PyInt (- 1)), env)
   \<and> main_line ''BEGIN x := - - 3; y := - 3 + - - + 2; END.''
       = (Inr (), [''x'' \<mapsto> PyInt 3, ''y'' \<mapsto> PyInt (- 1)])
   \<and> evaluate_expression ''- (7 / 2)'' env = (Inr (PyFloat (Finite True 7 (- 1))), env)
   \<and> numeric_value (PyFloat (Finite True 7 (- 1))) = Some (- (7 / 2))
   \<and> parse_expression ''2 * - - (1 + 2)'' =
       Inr (BinOp (Num 2) BMul
             (UnaryOp UMinus (UnaryOp UMinus (BinOp (Num 1) BPlus (Num 2)))), EOF)
   \<and> main_line ''BEGIN a := 5; b := - a; c := - - + a; d := - (a / 2); END.''
       = (Inr (), [''a'' \<mapsto> PyInt 5, ''b'' \<mapsto> PyInt (- 5), ''c'' \<mapsto> PyInt 5,
            ''d'' \<mapsto> PyFloat (Finite True 5 (- 1))])"
    by (simp add: run_eval lexer_eval parser_eval float_eval)
  have strings: "parse_expression (map sign_char ops @ ''3'') = Inr (foldr UnaryOp ops (Num 3), EOF)
   \<and> visit_expr (foldr UnaryOp ops (Num n)) env = (Inr (PyInt (foldr apply_sign ops n)), env)
   \<and> evaluate_expression (map sign_char ops @ ''3'') env
       = (Inr (PyInt (foldr apply_sign ops 3)), env)"
    by (simp add: evaluate_expression_def parse_expression_signs visit_signs)
  have laws: "numeric_value (py_neg a) = map_option uminus (numeric_value a)
   \<and> numeric_value (py_pos a) = numeric_value a"
    by (simp add: numeric_value_neg)
  show ?thesis
    using examples strings laws factor_sign_stack [of ops p q node q']
      visit_unary_stack [of operand env a ops]
    by blast
qed

theorem unary_operators_witness:
  "(eats_signs [UMinus, UPlus]
       \<lparr>lexer = \<lparr>src_text = ''-+x'', pos = 1, current_char = Some CHR ''+''\<rparr>,
        current_token = Token MINUS (StrVal ''-'')\<rparr>
       \<lparr>lexer = \<lparr>src_text = ''-+x'', pos = 3, current_char = None\<rparr>,
        current_token = Token ID (StrVal ''x'')\<rparr>
     \<and> factor \<lparr>lexer = \<lparr>src_text = ''-+x'', pos = 3, current_char = None\<rparr>,
        current_token = Token ID (StrVal ''x'')\<rparr>
       = Inr (Var ''x'', \<lparr>lexer = \<lparr>src_text = ''-+x'', pos = 3, current_char = None\<rparr>,
           current_token = Token EOF NoneVal\<rparr>)
     \<and> factor \<lparr>lexer = \<lparr>src_text = ''-+x'', pos = 1, current_char = Some CHR ''+''\<rparr>,
        current_token = Token MINUS (StrVal ''-'')\<rparr>
       = Inr (UnaryOp UMinus (UnaryOp UPlus (Var ''x'')),
           \<lparr>lexer = \<lparr>src_text = ''-+x'', pos = 3, current_char = None\<rparr>,
            current_token = Token EOF NoneVal\<rparr>))
   \<and> (fst (visit_expr (BinOp (Num 7) BDiv (Num 2)) Map.empty) = Inr (PyFloat (Finite False 7 (- 1)))
     \<and> visit_expr (UnaryOp UPlus (UnaryOp UMinus (BinOp (Num 7) BDiv (Num 2)))) Map.empty
       = (Inr (PyFloat (Finite True 7 (- 1))), Map.empty))"
proof -
  let ?p = "\<lparr>lexer = \<lparr>src_text = ''-+x'', pos = 1, current_char = Some CHR ''+''\<rparr>,
        current_token = Token MINUS (StrVal ''-'')\<rparr>"
  let ?p1 = "\<lparr>lexer = \<lparr>src_text = ''-+x'', pos = 2, current_char = Some CHR ''x''\<rparr>,
        current_token = Token PLUS (StrVal ''+'')\<rparr>"
  let ?q = "\<lparr>lexer = \<lparr>src_text = ''-+x'', pos = 3, current_char = None\<rparr>,
        current_token = Token ID (StrVal ''x'')\<rparr>"
  let ?q' = "\<lparr>lexer = \<lparr>src_text = ''-+x'', pos = 3, current_char = None\<rparr>,
        current_token = Token EOF NoneVal\<rparr>"
  have e1: "eat (tok_type (sign_token UMinus)) ?p = Inr ?p1" by (simp add: eat_def lexer_eval)
  have e2: "eat (tok_type (sign_token UPlus)) ?p1 = Inr ?q" by (simp add: eat_def lexer_eval)
  have s2: "eats_signs [UPlus] ?p1 ?q"
    by (rule eats_signs.sign [OF _ e2 eats_signs.none]) simp
  have s1: "eats_signs [UMinus, UPlus] ?p ?q"
    by (rule eats_signs.sign [OF _ e1 s2]) simp
  have f: "factor ?q = Inr (Var ''x'', ?q')" by (simp add: parser_eval lexer_eval)
  have v: "fst (visit_expr (BinOp (Num 7) BDiv (Num 2)) Map.empty)
      = Inr (PyFloat (Finite False 7 (- 1)))"
    by (simp add: float_eval)
  have w1: "factor ?p = Inr (foldr UnaryOp [UMinus, UPlus] (Var ''x''), ?q')"
    using unary_operators [THEN conjunct1, rule_format, OF s1 f] .
  have w2: "visit_expr (foldr UnaryOp [UPlus, UMinus] (BinOp (Num 7) BDiv (Num 2))) Map.empty
      = (Inr (foldr apply_unary [UPlus, UMinus] (PyFloat (Finite False 7 (- 1)))), Map.empty)"
    using unary_operators [THEN conjunct2, THEN conjunct1, rule_format, OF v] .
  show ?thesis using s1 f w1 v w2 by simp
qed

section \<open>The empty statement\<close>

text \<open>
  C10. A semicolon before \<^verbatim>\<open>END\<close> is accepted: with \<^verbatim>\<open>END\<close> as current token the rule
  \<^verbatim>\<open>statement\<close> returns a \<^verbatim>\<open>NoOp\<close> node and consumes nothing, so
  \<^verbatim>\<open>BEGIN a := 2; END.\<close> parses to a block whose last child is \<^verbatim>\<open>NoOp\<close>; visiting
  \<^verbatim>\<open>NoOp\<close> returns without touching the dictionary, and the program stores only \<^verbatim>\<open>a\<close>.
\<close>

theorem trailing_semicolon:
  "parse_program ''BEGIN a := 2; END.'' = Inr (Compound [Assign ''a'' (Num 2), NoOp])
   \<and> visit_stmt NoOp env = (Inr (), env)
   \<and> main_line ''BEGIN a := 2; END.'' = (Inr (), [''a'' \<mapsto> PyInt 2])
   \<and> (tok_type (current_token p) = END \<longrightarrow> statement p = Inr (NoOp, p))"
  by (simp add: run_eval lexer_eval parser_eval)


theorem trailing_semicolon_witness:
  "tok_type (current_token \<lparr>lexer = \<lparr>src_text = ''END'', pos = 3, current_char = None\<rparr>,
       current_token = Token END (StrVal ''END'')\<rparr>) = END
   \<and> statement \<lparr>lexer = \<lparr>src_text = ''END'', pos = 3, current_char = None\<rparr>,
       current_token = Token END (StrVal ''END'')\<rparr>
     = Inr (NoOp, \<lparr>lexer = \<lparr>src_text = ''END'', pos = 3, current_char = None\<rparr>,
       current_token = Token END (StrVal ''END'')\<rparr>)"
  using trailing_semicolon [where p = "\<lparr>lexer = \<lparr>src_text = ''END'', pos = 3, current_char = None\<rparr>,
       current_token = Token END (StrVal ''END'')\<rparr>"]
  by simp

section \<open>The lexer at the end of the input\<close>

lemma lexer_inv_advance: "lexer_inv (advance l)"
  by (auto simp: lexer_inv_def advance_def Let_def)

lemma src_text_advance: "src_text (advance l) = src_text l"
  by (simp add: advance_def Let_def)

lemma skip_whitespace_inv:
  "lexer_inv l \<Longrightarrow> lexer_inv (skip_whitespace l) \<and> src_text (skip_whitespace l) = src_text l"
proof (induction l rule: skip_whitespace.induct)
  case (1 l)
  show ?case
  proof (cases "current_char l")
    case None
    then show ?thesis using "1.prems" by (simp add: skip_whitespace.simps)
  next
    case (Some c)
    show ?thesis
    proof (cases "isspace c")
      case True
      then show ?thesis
        using "1.IH" [OF Some True lexer_inv_advance] Some
        by (simp add: skip_whitespace.simps [of l] src_text_advance)
    next
      case False
      then show ?thesis using Some "1.prems" by (simp add: skip_whitespace.simps)
    qed
  qed
qed

lemma id_loop_inv:
  "lexer_inv l \<Longrightarrow> lexer_inv (snd (id_loop r l)) \<and> src_text (snd (id_loop r l)) = src_text l"
proof (induction r l rule: id_loop.induct)
  case (1 result l)
  show ?case
  proof (cases "current_char l")
    case None
    then show ?thesis using "1.prems" by (simp add: id_loop.simps)
  next
    case (Some c)
    show ?thesis
    proof (cases "isalnum c")
      case True
      then show ?thesis
        using "1.IH" [OF Some True lexer_inv_advance] Some
        by (simp add: id_loop.simps [of result l] src_text_advance)
    next
      case False
      then show ?thesis using Some "1.prems" by (simp add: id_loop.simps)
    qed
  qed
qed

lemma integer_loop_inv:
  "lexer_inv l \<Longrightarrow>
     lexer_inv (snd (integer_loop r l)) \<and> src_text (snd (integer_loop r l)) = src_text l"
proof (induction r l rule: integer_loop.induct)
  case (1 result l)
  show ?case
  proof (cases "current_char l")
    case None
    then show ?thesis using "1.prems" by (simp add: integer_loop.simps)
  next
    case (Some c)
    show ?thesis
    proof (cases "isdigit c")
      case True
      then show ?thesis
        using "1.IH" [OF Some True lexer_inv_advance] Some
        by (simp add: integer_loop.simps [of result l] src_text_advance)
    next
      case False
      then show ?thesis using Some "1.prems" by (simp add: integer_loop.simps)
    qed
  qed
qed

lemma get_next_token_inv:
  "get_next_token l = Inr (t, l') \<Longrightarrow> lexer_inv l \<Longrightarrow> lexer_inv l' \<and> src_text l' = src_text l"
proof (induction l rule: get_next_token.induct)
  case (1 l)
  show ?case
  proof (cases "current_char l")
    case None
    then show ?thesis using "1.prems" by (auto simp: get_next_token.simps [of l])
  next
    case (Some c)
    show ?thesis
    proof (cases "isspace c \<and> \<not> isalpha c \<and> \<not> (c = CHR '':'' \<and> peek l = Some CHR ''='')
        \<and> c \<noteq> CHR '';'' \<and> c \<noteq> CHR ''.''")
      case True
      then have "get_next_token l = get_next_token (skip_whitespace l)"
        using Some by (auto simp: get_next_token.simps [of l])
      then have "get_next_token (skip_whitespace l) = Inr (t, l')" using "1.prems" by simp
      then have "lexer_inv l' \<and> src_text l' = src_text (skip_whitespace l)"
        using "1.IH" [of c] Some True skip_whitespace_inv [OF "1.prems"(2)] by simp
      then show ?thesis using skip_whitespace_inv [OF "1.prems"(2)] by simp
    next
      case False
      then show ?thesis
        using "1.prems" Some lexer_inv_advance src_text_advance
          id_loop_inv [OF "1.prems"(2), of "[]"] integer_loop_inv [OF "1.prems"(2), of "[]"]
        by (auto simp: get_next_token.simps [of l] lexer_id_def integer_def
            split: if_splits sum.splits prod.splits option.splits)
    qed
  qed
qed

lemma lexer_state_inv: "lexer_state txt l \<Longrightarrow> lexer_inv l \<and> src_text l = txt"
proof (induction rule: lexer_state.induct)
  case (initial s l)
  then show ?case by (auto simp: Lexer_def lexer_inv_def split: if_splits)
next
  case (next_token s l t l')
  then show ?case using get_next_token_inv [of l t l'] by simp
qed

text \<open>
  C8. In every state of a lexer on any input in which the cursor is past the last
  character (\<^verbatim>\<open>pos > len(text) - 1\<close>), any number of calls of \<^verbatim>\<open>get_next_token\<close> return
  the \<^verbatim>\<open>EOF\<close> token each time and leave the lexer as it is.
\<close>

theorem end_of_input_forever:
  assumes "lexer_state txt l" and "int (pos l) > int (length txt) - 1"
  shows "next_tokens n l = Inr (replicate n (Token EOF NoneVal), l)"
proof -
  have "current_char l = None"
    using lexer_state_inv [OF assms(1)] assms(2) by (auto simp: lexer_inv_def)
  then have "get_next_token l = Inr (Token EOF NoneVal, l)"
    by (simp add: get_next_token.simps [of l])
  then show ?thesis by (induction n) simp_all
qed

theorem end_of_input_forever_witness:
  "lexer_state ''7'' \<lparr>src_text = ''7'', pos = 1, current_char = None\<rparr>
   \<and> int (pos \<lparr>src_text = ''7'', pos = 1, current_char = None\<rparr>) > int (length ''7'') - 1
   \<and> next_tokens 3 \<lparr>src_text = ''7'', pos = 1, current_char = None\<rparr>
       = Inr ([Token EOF NoneVal, Token EOF NoneVal, Token EOF NoneVal],
              \<lparr>src_text = ''7'', pos = 1, current_char = None\<rparr>)"
proof -
  have s0: "lexer_state ''7'' \<lparr>src_text = ''7'', pos = 0, current_char = Some CHR ''7''\<rparr>"
    by (rule lexer_state.initial) (simp add: Lexer_def)
  have s1: "lexer_state ''7'' \<lparr>src_text = ''7'', pos = 1, current_char = None\<rparr>"
    by (rule lexer_state.next_token [OF s0, where t = "Token INTEGER (IntVal 7)"])
       (simp add: lexer_eval)
  have h: "int (pos \<lparr>src_text = ''7'', pos = 1, current_char = None\<rparr>) > int (length ''7'') - 1"
    by simp
  show ?thesis
    using end_of_input_forever [OF s1 h, of 3] s1 h by (simp add: numeral_3_eq_3)
qed

section \<open>The lexer on the empty string\<close>

text \<open>
  C9. The constructor of \<^verbatim>\<open>Lexer\<close> raises \<^verbatim>\<open>IndexError\<close> on the empty string, and on
  every other string it returns a lexer positioned on the first character.
\<close>

theorem lexer_empty_input:
  "Lexer [] = Inl IndexError
   \<and> (\<forall>c cs. Lexer (c # cs) = Inr \<lparr>src_text = c # cs, pos = 0, current_char = Some c\<rparr>)"
  by (simp add: Lexer_def)

end
